theory Spec2Isabelle
  imports Complex_Main "HOL-Library.Word" "HOL-Library.Code_Target_Nat"
begin

section \<open>Byte buffers and big-endian fields\<close>

text \<open>
  The muxer of \<^verbatim>\<open>src/content.js\<close> works on \<^verbatim>\<open>ArrayBuffer\<close>s through
  \<^verbatim>\<open>DataView\<close> and \<^verbatim>\<open>Uint8Array\<close>.  A buffer is a list of bytes; offsets,
  lengths and sizes are JavaScript numbers holding non-negative integers, modelled as
  \<open>nat\<close>.  Every exception the modelled code can raise is a value of \<open>error\<close>.
\<close>

type_synonym byte = "8 word"
type_synonym bytes = "byte list"

datatype error =
    RangeError          \<comment> \<open>a \<^verbatim>\<open>DataView\<close> access or typed-array construction out of bounds\<close>
  | TypeError           \<comment> \<open>a property read on \<^verbatim>\<open>undefined\<close>\<close>
  | MissingBoxes        \<comment> \<open>\<^verbatim>\<open>new Error('Missing required boxes')\<close>\<close>
  | NoAudioTrack        \<comment> \<open>\<^verbatim>\<open>new Error('No audio track found')\<close>\<close>
  | NoVideoStsd         \<comment> \<open>\<^verbatim>\<open>new Error('Could not extract video stsd')\<close>\<close>
  | Timeout             \<comment> \<open>\<^verbatim>\<open>new Error('Timeout')\<close>\<close>
  | MP4BoxNotLoaded     \<comment> \<open>\<^verbatim>\<open>new Error('MP4Box library not loaded')\<close>\<close>
  | DemuxError          \<comment> \<open>an error reported or raised by the MP4Box library\<close>

text \<open>
  The unsigned 32-bit big-endian field at an offset; meaningful when the four bytes lie
  inside the buffer.  \<^verbatim>\<open>view.getUint32(o)\<close> and \<^verbatim>\<open>view.getBigUint64(o)\<close> throw a
  RangeError when the field does not lie inside the view.
\<close>

definition u32 :: "bytes \<Rightarrow> nat \<Rightarrow> nat" where
  "u32 view off =
     unat (view ! off) * 16777216 + unat (view ! (off + 1)) * 65536
       + unat (view ! (off + 2)) * 256 + unat (view ! (off + 3))"

definition getUint32 :: "bytes \<Rightarrow> nat \<Rightarrow> error + nat" where
  "getUint32 view off = (if off + 4 \<le> length view then Inr (u32 view off) else Inl RangeError)"

definition getBigUint64 :: "bytes \<Rightarrow> nat \<Rightarrow> error + nat" where
  "getBigUint64 view off =
     (if off + 8 \<le> length view then Inr (u32 view off * 4294967296 + u32 view (off + 4))
      else Inl RangeError)"

text \<open>
  Storing an unsigned big-endian field keeps the value modulo \<open>2 ^ 16\<close> or \<open>2 ^ 32\<close>
  (\<open>word_of_nat\<close> keeps the low 8 bits).  \<^verbatim>\<open>view.setUint32(o, v)\<close> throws a RangeError
  when the field does not lie inside the view; \<open>putUint32\<close> is the store itself, used
  directly where the source writes at a constant offset into an array it has just
  allocated with a constant length.
\<close>

definition putUint32 :: "bytes \<Rightarrow> nat \<Rightarrow> nat \<Rightarrow> bytes" where
  "putUint32 view off v =
     view[off := word_of_nat (v div 16777216), off + 1 := word_of_nat (v div 65536),
          off + 2 := word_of_nat (v div 256), off + 3 := word_of_nat v]"

definition putUint16 :: "bytes \<Rightarrow> nat \<Rightarrow> nat \<Rightarrow> bytes" where
  "putUint16 view off v = view[off := word_of_nat (v div 256), off + 1 := word_of_nat v]"

definition setUint32 :: "bytes \<Rightarrow> nat \<Rightarrow> nat \<Rightarrow> error + bytes" where
  "setUint32 view off v =
     (if off + 4 \<le> length view then Inr (putUint32 view off v) else Inl RangeError)"

text \<open>
  \<^verbatim>\<open>String.fromCharCode(b4, b5, b6, b7)\<close> on the four type bytes of a box header.  Every
  call site reads them inside the buffer.
\<close>

definition fromCharCode :: "bytes \<Rightarrow> string" where
  "fromCharCode bs = map (\<lambda>b. char_of (unat b)) bs"

definition typeAt :: "bytes \<Rightarrow> nat \<Rightarrow> string" where
  "typeAt data off = fromCharCode (take 4 (drop (off + 4) data))"

text \<open>
  \<^verbatim>\<open>data.slice(a, b)\<close> for \<open>a \<le> b\<close>: a fresh copy of the bytes from \<open>a\<close> up to
  \<open>b\<close>, clamped to the buffer.
\<close>

definition sliceBytes :: "bytes \<Rightarrow> nat \<Rightarrow> nat \<Rightarrow> bytes" where
  "sliceBytes data a b = take (b - a) (drop a data)"

text \<open>
  The nearest double of a non-negative integer, ties to even: \<^verbatim>\<open>Number(big)\<close> for a
  64-bit unsigned \<^verbatim>\<open>BigInt\<close>, and the result of a sum or a product of integers.
  Integers below \<open>2 ^ 53\<close> are exact.
\<close>

fun bitlen :: "nat \<Rightarrow> nat" where
  "bitlen n = (if n = 0 then 0 else Suc (bitlen (n div 2)))"

definition toNumber :: "nat \<Rightarrow> nat" where
  "toNumber n =
     (if n < 2 ^ 53 then n
      else let sh = bitlen n - 53; q = n div 2 ^ sh; r = n mod 2 ^ sh; h = 2 ^ (sh - 1)
           in if h < r \<or> (r = h \<and> odd q) then (q + 1) * 2 ^ sh else q * 2 ^ sh)"


section \<open>Box reader\<close>

text \<open>The object \<^verbatim>\<open>{ size, type, headerSize, offset }\<close> returned by \<^verbatim>\<open>readBoxHeader\<close>.\<close>

record box =
  box_size :: nat
  box_type :: string
  headerSize :: nat
  box_offset :: nat

text \<open>
  \<^verbatim>\<open>readBoxHeader(view, offset)\<close>, lines 18-37.  \<open>None\<close> is the \<^verbatim>\<open>null\<close> returned when
  fewer than 8 bytes remain.  A size field of 1 selects the 64-bit size that follows the
  header; that read is not guarded and throws when fewer than 16 bytes remain.
\<close>

definition readBoxHeader :: "bytes \<Rightarrow> nat \<Rightarrow> error + box option" where
  "readBoxHeader view offset =
     (if offset + 8 > length view then Inr None
      else case getUint32 view offset of
        Inl e \<Rightarrow> Inl e
      | Inr size32 \<Rightarrow>
          let type = typeAt view offset in
          if size32 = 1 then
            (case getBigUint64 view (offset + 8) of
               Inl e \<Rightarrow> Inl e
             | Inr big \<Rightarrow>
                 Inr (Some \<lparr>box_size = toNumber big, box_type = type,
                            headerSize = 16, box_offset = offset\<rparr>))
          else if size32 = 0 then
            Inr (Some \<lparr>box_size = length view - offset, box_type = type,
                       headerSize = 8, box_offset = offset\<rparr>)
          else
            Inr (Some \<lparr>box_size = size32, box_type = type,
                       headerSize = 8, box_offset = offset\<rparr>))"

text \<open>
  \<^verbatim>\<open>parseBoxes(view)\<close>, lines 40-50: the \<^verbatim>\<open>while\<close> loop with its state
  \<^verbatim>\<open>(offset, boxes)\<close>.  The loop has no test of \<^verbatim>\<open>offset + box.size\<close> against the
  length of the buffer.  (When a 64-bit size is \<open>2 ^ 53\<close> or more, the sum
  \<^verbatim>\<open>offset + box.size\<close> is rounded by JavaScript; the exact and the rounded sum both
  exceed the length of any buffer, so the loop test is the same.)
\<close>

function parseBoxes_loop :: "bytes \<Rightarrow> nat \<Rightarrow> box list \<Rightarrow> error + box list" where
  "parseBoxes_loop view offset boxes =
     (if offset < length view then
        (case readBoxHeader view offset of
           Inl e \<Rightarrow> Inl e
         | Inr None \<Rightarrow> Inr boxes
         | Inr (Some b) \<Rightarrow>
             if box_size b < 8 then Inr boxes
             else parseBoxes_loop view (offset + box_size b) (boxes @ [b]))
      else Inr boxes)"
  by pat_completeness auto
termination
  by (relation "measure (\<lambda>(view, offset, boxes). length view - offset)") auto

definition parseBoxes :: "bytes \<Rightarrow> error + box list" where
  "parseBoxes view = parseBoxes_loop view 0 []"

text \<open>
  The same loop with an explicit bound on the number of iterations: \<open>None\<close> when the
  bound is used up before the loop has left.
\<close>

fun parseBoxes_fuel :: "nat \<Rightarrow> bytes \<Rightarrow> nat \<Rightarrow> box list \<Rightarrow> (error + box list) option" where
  "parseBoxes_fuel 0 view offset boxes = None"
| "parseBoxes_fuel (Suc fuel) view offset boxes =
     (if offset < length view then
        (case readBoxHeader view offset of
           Inl e \<Rightarrow> Some (Inl e)
         | Inr None \<Rightarrow> Some (Inr boxes)
         | Inr (Some b) \<Rightarrow>
             if box_size b < 8 then Some (Inr boxes)
             else parseBoxes_fuel fuel view (offset + box_size b) (boxes @ [b]))
      else Some (Inr boxes))"


text \<open>
  The scan over the immediate children of a container, from a start offset: the loop
  that \<^verbatim>\<open>findSubBoxWithOffset\<close> (lines 235-248), \<^verbatim>\<open>findSubBox\<close> (lines 1356-1375)
  and \<^verbatim>\<open>updateTrackIdInTrak\<close> (lines 1402-1428) each spell out.  The loop test
  \<^verbatim>\<open>offset < data.length - 8\<close> keeps the 8 header bytes inside the buffer, so the reads
  cannot throw; it is false for every offset when the buffer has fewer than 8 bytes.
  The result is the offset and the size of the first child of the wanted type.
\<close>

function scanFor :: "bytes \<Rightarrow> string \<Rightarrow> nat \<Rightarrow> (nat \<times> nat) option" where
  "scanFor data targetType offset =
     (if offset + 8 < length data then
        if u32 data offset < 8 \<or> offset + u32 data offset > length data then None
        else if typeAt data offset = targetType then Some (offset, u32 data offset)
        else scanFor data targetType (offset + u32 data offset)
      else None)"
  by pat_completeness auto
termination
  by (relation "measure (\<lambda>(data, targetType, offset). length data - offset)") auto

text \<open>\<^verbatim>\<open>findSubBoxWithOffset(data, targetType)\<close>: \<^verbatim>\<open>{ offset, size, data }\<close> or \<^verbatim>\<open>null\<close>.\<close>

record subbox =
  sub_offset :: nat
  sub_size :: nat
  sub_data :: bytes

definition findSubBoxWithOffset :: "bytes \<Rightarrow> string \<Rightarrow> subbox option" where
  "findSubBoxWithOffset data targetType =
     (case scanFor data targetType 8 of
        None \<Rightarrow> None
      | Some (offset, sz) \<Rightarrow>
          Some \<lparr>sub_offset = offset, sub_size = sz,
                sub_data = sliceBytes data offset (offset + sz)\<rparr>)"

text \<open>\<^verbatim>\<open>findSubBox(data, targetType)\<close>: a copy of the child, or \<^verbatim>\<open>null\<close>.\<close>

definition findSubBox :: "bytes \<Rightarrow> string \<Rightarrow> bytes option" where
  "findSubBox data targetType =
     (case scanFor data targetType 8 of
        None \<Rightarrow> None
      | Some (offset, sz) \<Rightarrow> Some (sliceBytes data offset (offset + sz)))"


section \<open>Field patcher\<close>

text \<open>
  \<^verbatim>\<open>updateTrackIdInTrak(trakData, newTrackId)\<close>, lines 1402-1428, on an array that owns
  its buffer; the result is the array after the call.  The version byte is read by
  index (an index outside the array reads \<^verbatim>\<open>undefined\<close>, which is not \<^verbatim>\<open>=== 0\<close>);
  the store is not guarded and throws when the \<^verbatim>\<open>tkhd\<close> box is too short.
\<close>

definition updateTrackIdInTrak :: "bytes \<Rightarrow> nat \<Rightarrow> error + bytes" where
  "updateTrackIdInTrak trakData newTrackId =
     (case scanFor trakData ''tkhd'' 8 of
        None \<Rightarrow> Inr trakData
      | Some (offset, sz) \<Rightarrow>
          let version0 = (offset + 8 < length trakData \<and> trakData ! (offset + 8) = 0);
              trackIdOffset = offset + (if version0 then 20 else 28)
          in setUint32 trakData trackIdOffset newTrackId)"

text \<open>
  \<^verbatim>\<open>updateTrackIdInTrex(trexData, newTrackId)\<close>, lines 251-257, on an array that owns its
  buffer.  The length test keeps the store inside the array.
\<close>

definition updateTrackIdInTrex :: "bytes \<Rightarrow> nat \<Rightarrow> bytes" where
  "updateTrackIdInTrex trexData newTrackId =
     (if length trexData < 16 then trexData else putUint32 trexData 12 newTrackId)"

text \<open>
  \<^verbatim>\<open>updateTrackIdInMoof(moofData, newTrackId)\<close>, lines 1431-1468, on an array that owns
  its buffer.  The inner loop looks for \<^verbatim>\<open>tfhd\<close> between \<open>trafOffset\<close> and the end
  \<open>trafEnd = offset + size\<close> of a \<^verbatim>\<open>traf\<close> child; it tests the child's size against 8
  only.  The store at \<^verbatim>\<open>trafOffset + 12\<close> is not guarded.
\<close>

function findTfhd :: "bytes \<Rightarrow> nat \<Rightarrow> nat \<Rightarrow> nat option" where
  "findTfhd moofData trafEnd trafOffset =
     (if trafOffset + 8 < trafEnd then
        if u32 moofData trafOffset < 8 then None
        else if typeAt moofData trafOffset = ''tfhd'' then Some trafOffset
        else findTfhd moofData trafEnd (trafOffset + u32 moofData trafOffset)
      else None)"
  by pat_completeness auto
termination
  by (relation "measure (\<lambda>(moofData, trafEnd, trafOffset). trafEnd - trafOffset)") auto

function updateTrackIdInMoof_loop :: "bytes \<Rightarrow> nat \<Rightarrow> nat \<Rightarrow> error + bytes" where
  "updateTrackIdInMoof_loop moofData newTrackId offset =
     (if offset + 8 < length moofData then
        if u32 moofData offset < 8 \<or> offset + u32 moofData offset > length moofData
        then Inr moofData
        else if typeAt moofData offset = ''traf'' then
          (case findTfhd moofData (offset + u32 moofData offset) (offset + 8) of
             Some trafOffset \<Rightarrow> setUint32 moofData (trafOffset + 12) newTrackId
           | None \<Rightarrow> updateTrackIdInMoof_loop moofData newTrackId (offset + u32 moofData offset))
        else updateTrackIdInMoof_loop moofData newTrackId (offset + u32 moofData offset)
      else Inr moofData)"
  by pat_completeness auto
termination
  by (relation "measure (\<lambda>(moofData, newTrackId, offset). length moofData - offset)") auto

definition updateTrackIdInMoof :: "bytes \<Rightarrow> nat \<Rightarrow> error + bytes" where
  "updateTrackIdInMoof moofData newTrackId = updateTrackIdInMoof_loop moofData newTrackId 8"


section \<open>Moov merger\<close>

text \<open>
  \<^verbatim>\<open>createMergedMoov(videoMoovData, audioTrakBox, audioTrexBox)\<close>, lines 174-232.
  \<^verbatim>\<open>new Uint8Array(typedArray)\<close> copies, so the two patchers work on private copies.
  An array allocated with the summed length and filled by \<^verbatim>\<open>set\<close> at the running offset
  is the concatenation of the pieces (\<open>oldMvex\<close> has \<open>mvexSize\<close> bytes, since the scan
  accepted \<^verbatim>\<open>offset + size <= data.length\<close>).
\<close>

definition createMergedMoov :: "bytes \<Rightarrow> bytes \<Rightarrow> bytes option \<Rightarrow> error + bytes" where
  "createMergedMoov videoMoovData audioTrakBox audioTrexBox =
     (case updateTrackIdInTrak audioTrakBox 2 of
        Inl e \<Rightarrow> Inl e
      | Inr audioTrakCopy \<Rightarrow>
          (case (findSubBoxWithOffset videoMoovData ''mvex'', audioTrexBox) of
             (Some videoMvex, Some trex) \<Rightarrow>
               (let audioTrexCopy = updateTrackIdInTrex trex 2;
                    mvexOffset = sub_offset videoMvex;
                    mvexSize = sub_size videoMvex;
                    beforeMvex = sliceBytes videoMoovData 0 mvexOffset;
                    oldMvex = sliceBytes videoMoovData mvexOffset (mvexOffset + mvexSize);
                    newMvexSize = mvexSize + length audioTrexCopy
                in (case setUint32 (oldMvex @ audioTrexCopy) 0 newMvexSize of
                      Inl e \<Rightarrow> Inl e
                    | Inr newMvex \<Rightarrow>
                        (let newMoovSize =
                               length beforeMvex + length audioTrakCopy + length newMvex
                         in setUint32 (beforeMvex @ audioTrakCopy @ newMvex) 0 newMoovSize)))
           | _ \<Rightarrow>
               (let newSize = length videoMoovData + length audioTrakCopy
                in setUint32 (videoMoovData @ audioTrakCopy) 0 newSize)))"


section \<open>Fragment assembler\<close>

text \<open>
  The two input \<^verbatim>\<open>ArrayBuffer\<close>s are the only shared mutable objects.  A
  \<^verbatim>\<open>Uint8Array\<close> is either a view \<^verbatim>\<open>new Uint8Array(buffer, byteOffset, length)\<close> of
  one of them, which reads and writes the buffer itself, or an array with a buffer of its
  own (made by \<^verbatim>\<open>slice\<close> or by copying).
\<close>

datatype buffer = VideoBuffer | AudioBuffer

record heap =
  videoData :: bytes
  audioData :: bytes

datatype u8array = View buffer nat nat | Own bytes

definition bufferOf :: "heap \<Rightarrow> buffer \<Rightarrow> bytes" where
  "bufferOf h b = (case b of VideoBuffer \<Rightarrow> videoData h | AudioBuffer \<Rightarrow> audioData h)"

definition store :: "heap \<Rightarrow> buffer \<Rightarrow> bytes \<Rightarrow> heap" where
  "store h b bs = (case b of VideoBuffer \<Rightarrow> h\<lparr>videoData := bs\<rparr> | AudioBuffer \<Rightarrow> h\<lparr>audioData := bs\<rparr>)"

text \<open>
  \<^verbatim>\<open>new Uint8Array(buffer, byteOffset, length)\<close> throws a RangeError unless the view lies
  inside the buffer.
\<close>

definition newView :: "heap \<Rightarrow> buffer \<Rightarrow> nat \<Rightarrow> nat \<Rightarrow> error + u8array" where
  "newView h b byteOffset len =
     (if byteOffset + len \<le> length (bufferOf h b) then Inr (View b byteOffset len)
      else Inl RangeError)"

definition contents :: "heap \<Rightarrow> u8array \<Rightarrow> bytes" where
  "contents h a =
     (case a of View b byteOffset len \<Rightarrow> sliceBytes (bufferOf h b) byteOffset (byteOffset + len)
      | Own bs \<Rightarrow> bs)"

definition arrayLength :: "u8array \<Rightarrow> nat" where
  "arrayLength a = (case a of View b byteOffset len \<Rightarrow> len | Own bs \<Rightarrow> length bs)"

text \<open>
  \<^verbatim>\<open>updateTrackIdInSidx(sidxData, newTrackId)\<close>, lines 166-171: the store goes through
  \<^verbatim>\<open>new DataView(sidxData.buffer, sidxData.byteOffset, sidxData.byteLength)\<close>, that is
  into the buffer behind the array.
\<close>

definition updateTrackIdInSidx :: "heap \<Rightarrow> u8array \<Rightarrow> nat \<Rightarrow> heap \<times> u8array" where
  "updateTrackIdInSidx h sidxData newTrackId =
     (if arrayLength sidxData < 16 then (h, sidxData)
      else case sidxData of
        View b byteOffset len \<Rightarrow>
          (store h b (putUint32 (bufferOf h b) (byteOffset + 12) newTrackId), sidxData)
      | Own bs \<Rightarrow> (h, Own (putUint32 bs 12 newTrackId)))"

text \<open>A collected fragment \<^verbatim>\<open>{ type, data }\<close>.\<close>

record fragment =
  frag_type :: string
  frag_data :: u8array

text \<open>Lines 90-100: the video fragments are views of the video buffer.\<close>

fun collectVideoFragments :: "heap \<Rightarrow> box list \<Rightarrow> error + fragment list" where
  "collectVideoFragments h [] = Inr []"
| "collectVideoFragments h (b # boxes) =
     (if box_type b = ''styp'' \<or> box_type b = ''sidx'' \<or> box_type b = ''moof''
         \<or> box_type b = ''mdat''
      then (case newView h VideoBuffer (box_offset b) (box_size b) of
              Inl e \<Rightarrow> Inl e
            | Inr v \<Rightarrow>
                (case collectVideoFragments h boxes of
                   Inl e \<Rightarrow> Inl e
                 | Inr frags \<Rightarrow> Inr (\<lparr>frag_type = box_type b, frag_data = v\<rparr> # frags)))
      else collectVideoFragments h boxes)"

text \<open>
  Lines 102-122: \<^verbatim>\<open>styp\<close>, \<^verbatim>\<open>sidx\<close> and \<^verbatim>\<open>mdat\<close> fragments are views of the audio
  buffer; a \<^verbatim>\<open>moof\<close> is copied with \<^verbatim>\<open>audioData.slice\<close> and its copy is patched.
\<close>

fun collectAudioFragments :: "heap \<Rightarrow> box list \<Rightarrow> error + fragment list" where
  "collectAudioFragments h [] = Inr []"
| "collectAudioFragments h (b # boxes) =
     (if box_type b = ''styp'' \<or> box_type b = ''sidx'' then
        (case newView h AudioBuffer (box_offset b) (box_size b) of
           Inl e \<Rightarrow> Inl e
         | Inr v \<Rightarrow>
             (case collectAudioFragments h boxes of
                Inl e \<Rightarrow> Inl e
              | Inr frags \<Rightarrow> Inr (\<lparr>frag_type = box_type b, frag_data = v\<rparr> # frags)))
      else if box_type b = ''moof'' then
        (case updateTrackIdInMoof
                (sliceBytes (audioData h) (box_offset b) (box_offset b + box_size b)) 2 of
           Inl e \<Rightarrow> Inl e
         | Inr moofData \<Rightarrow>
             (case collectAudioFragments h boxes of
                Inl e \<Rightarrow> Inl e
              | Inr frags \<Rightarrow> Inr (\<lparr>frag_type = ''moof'', frag_data = Own moofData\<rparr> # frags)))
      else if box_type b = ''mdat'' then
        (case newView h AudioBuffer (box_offset b) (box_size b) of
           Inl e \<Rightarrow> Inl e
         | Inr v \<Rightarrow>
             (case collectAudioFragments h boxes of
                Inl e \<Rightarrow> Inl e
              | Inr frags \<Rightarrow> Inr (\<lparr>frag_type = box_type b, frag_data = v\<rparr> # frags)))
      else collectAudioFragments h boxes)"

text \<open>Lines 124-129: every \<^verbatim>\<open>sidx\<close> fragment of the audio stream is patched.\<close>

fun patchSidxFragments :: "heap \<Rightarrow> fragment list \<Rightarrow> heap \<times> fragment list" where
  "patchSidxFragments h [] = (h, [])"
| "patchSidxFragments h (frag # frags) =
     (if frag_type frag = ''sidx'' then
        (case updateTrackIdInSidx h (frag_data frag) 2 of
           (h', d) \<Rightarrow>
             (case patchSidxFragments h' frags of
                (h'', rest) \<Rightarrow> (h'', frag\<lparr>frag_data := d\<rparr> # rest)))
      else (case patchSidxFragments h frags of (h'', rest) \<Rightarrow> (h'', frag # rest)))"

text \<open>
  \<^verbatim>\<open>binaryMuxFragmentedMP4(videoData, audioData, onProgress)\<close>, lines 11-163.  The
  function has no \<^verbatim>\<open>await\<close>: it runs to its end when called.  It returns the output
  bytes or the exception, and the heap it leaves behind.
\<close>

definition binaryMuxFragmentedMP4 :: "heap \<Rightarrow> (error + bytes) \<times> heap" where
  "binaryMuxFragmentedMP4 h =
     (case parseBoxes (videoData h) of
        Inl e \<Rightarrow> (Inl e, h)
      | Inr videoBoxes \<Rightarrow>
     (case parseBoxes (audioData h) of
        Inl e \<Rightarrow> (Inl e, h)
      | Inr audioBoxes \<Rightarrow>
     (case find (\<lambda>b. box_type b = ''ftyp'') videoBoxes of
        None \<Rightarrow> (Inl MissingBoxes, h)
      | Some videoFtyp \<Rightarrow>
     (case find (\<lambda>b. box_type b = ''moov'') videoBoxes of
        None \<Rightarrow> (Inl MissingBoxes, h)
      | Some videoMoov \<Rightarrow>
     (case find (\<lambda>b. box_type b = ''moov'') audioBoxes of
        None \<Rightarrow> (Inl MissingBoxes, h)
      | Some audioMoov \<Rightarrow>
     (case newView h VideoBuffer (box_offset videoMoov) (box_size videoMoov) of
        Inl e \<Rightarrow> (Inl e, h)
      | Inr videoMoovData \<Rightarrow>
     (case newView h AudioBuffer (box_offset audioMoov) (box_size audioMoov) of
        Inl e \<Rightarrow> (Inl e, h)
      | Inr audioMoovData \<Rightarrow>
     (case findSubBox (contents h audioMoovData) ''trak'' of
        None \<Rightarrow> (Inl NoAudioTrack, h)
      | Some audioTrakBox \<Rightarrow>
     (case createMergedMoov (contents h videoMoovData) audioTrakBox
             (case findSubBox (contents h audioMoovData) ''mvex'' of
                None \<Rightarrow> None
              | Some audioMvexBox \<Rightarrow> findSubBox audioMvexBox ''trex'') of
        Inl e \<Rightarrow> (Inl e, h)
      | Inr mergedMoov \<Rightarrow>
     (case collectVideoFragments h videoBoxes of
        Inl e \<Rightarrow> (Inl e, h)
      | Inr videoFragments \<Rightarrow>
     (case collectAudioFragments h audioBoxes of
        Inl e \<Rightarrow> (Inl e, h)
      | Inr audioFragments0 \<Rightarrow>
     (case patchSidxFragments h audioFragments0 of
        (h', audioFragments) \<Rightarrow>
     (case newView h' VideoBuffer (box_offset videoFtyp) (box_size videoFtyp) of
        Inl e \<Rightarrow> (Inl e, h')
      | Inr ftypData \<Rightarrow>
          (Inr (contents h' ftypData @ mergedMoov
                 @ concat (map (\<lambda>f. contents h' (frag_data f)) videoFragments)
                 @ concat (map (\<lambda>f. contents h' (frag_data f)) audioFragments)),
           h'))))))))))))))"

section \<open>Sample description lookup\<close>

text \<open>
  \<^verbatim>\<open>findStsdInBox(data, startOffset)\<close>, lines 283-309: the same scan, which returns a
  copy of the first \<^verbatim>\<open>stsd\<close> child and descends into copies of the container boxes
  \<^verbatim>\<open>trak\<close>, \<^verbatim>\<open>mdia\<close>, \<^verbatim>\<open>minf\<close> and \<^verbatim>\<open>stbl\<close>.
\<close>

function findStsdInBox :: "bytes \<Rightarrow> nat \<Rightarrow> bytes option" where
  "findStsdInBox data offset =
     (if offset + 8 < length data then
        if u32 data offset < 8 \<or> offset + u32 data offset > length data then None
        else if typeAt data offset = ''stsd''
        then Some (sliceBytes data offset (offset + u32 data offset))
        else if typeAt data offset = ''trak'' \<or> typeAt data offset = ''mdia''
                \<or> typeAt data offset = ''minf'' \<or> typeAt data offset = ''stbl''
        then (case findStsdInBox (sliceBytes data offset (offset + u32 data offset)) 8 of
                Some r \<Rightarrow> Some r
              | None \<Rightarrow> findStsdInBox data (offset + u32 data offset))
        else findStsdInBox data (offset + u32 data offset)
      else None)"
  by pat_completeness auto
termination
  by (relation "measures [\<lambda>(data, offset). length data, \<lambda>(data, offset). length data - offset]")
     (auto simp: sliceBytes_def)

text \<open>
  \<^verbatim>\<open>extractStsdFromMoov(data)\<close>, lines 260-280: the scan over the top-level boxes from
  offset 0, which stops at the first \<^verbatim>\<open>moov\<close> and searches it.
\<close>

definition extractStsdFromMoov :: "bytes \<Rightarrow> bytes option" where
  "extractStsdFromMoov data =
     (case scanFor data ''moov'' 0 of
        None \<Rightarrow> None
      | Some (offset, sz) \<Rightarrow> findStsdInBox (sliceBytes data offset (offset + sz)) 8)"


section \<open>Box writer\<close>

definition be32 :: "nat \<Rightarrow> bytes" where
  "be32 v = [word_of_nat (v div 16777216), word_of_nat (v div 65536),
             word_of_nat (v div 256), word_of_nat v]"

text \<open>\<^verbatim>\<open>type.charCodeAt(0..3)\<close>; a missing character is NaN and is stored as 0.\<close>

definition charCodes :: "string \<Rightarrow> bytes" where
  "charCodes t = map (\<lambda>c. word_of_nat (of_char c)) t"

definition typeCodes :: "string \<Rightarrow> bytes" where
  "typeCodes t = take 4 (charCodes t @ replicate 4 0)"

text \<open>\<^verbatim>\<open>makeBox(type, content)\<close>, lines 449-460 and 804-815.\<close>

definition makeBox :: "string \<Rightarrow> bytes \<Rightarrow> bytes" where
  "makeBox type content = be32 (8 + length content) @ typeCodes type @ content"


section \<open>Progressive builder\<close>

text \<open>
  A sample as the demuxer delivers it; \<open>sample_data\<close> is \<open>None\<close> when \<^verbatim>\<open>s.data\<close> is
  missing.  A track as \<^verbatim>\<open>buildOutput\<close> and \<^verbatim>\<open>buildManualMP4\<close> build it: \<open>rawStsd\<close> is
  the \<^verbatim>\<open>stsd\<close> box copied from the source (or \<^verbatim>\<open>null\<close>); \<open>stsdEntry\<close> is \<open>None\<close> when
  the track has no \<^verbatim>\<open>stsdEntry\<close>, and otherwise what \<^verbatim>\<open>serializeBox(track.stsdEntry)\<close>
  gives, bytes written by the MP4Box library or the exception it throws.
\<close>

record sample =
  sample_data :: "bytes option"
  sample_duration :: nat
  sample_dts :: int
  sample_cts :: int
  is_sync :: bool

record track =
  track_id :: nat
  track_type :: string
  track_timescale :: nat
  track_duration :: nat
  track_width :: nat
  track_height :: nat
  track_samples :: "sample list"
  rawStsd :: "bytes option"
  stsdEntry :: "(error + bytes) option"

text \<open>
  The quotient of two positive integers as a double: the nearest number with 53
  significant bits, ties to even.  The exponent \<open>e\<close> is the one that brings the exact
  quotient into the range from \<open>2 ^ 52\<close> up to \<open>2 ^ 53\<close>; \<open>m\<close> is the quotient scaled by
  \<open>2 ^ e\<close> and rounded.  (Quotients here are far from the subnormal and the overflow
  range of doubles.)
\<close>

definition scaledBy :: "nat \<Rightarrow> nat \<Rightarrow> int \<Rightarrow> nat \<times> nat" where
  "scaledBy x t e = (if 0 \<le> e then (x, t * 2 ^ nat e) else (x * 2 ^ nat (- e), t))"

definition divDouble :: "nat \<Rightarrow> nat \<Rightarrow> rat" where
  "divDouble x t =
     (if x = 0 then 0
      else
        let e0 = int (bitlen x) - int (bitlen t) - 53;
            e = (case scaledBy x t e0 of
                   (n, d) \<Rightarrow> if 9007199254740992 * d \<le> n then e0 + 1 else e0)
        in case scaledBy x t e of
             (n, d) \<Rightarrow>
               let m0 = n div d;
                   r = n mod d;
                   m = (if d < 2 * r \<or> (2 * r = d \<and> odd m0) then m0 + 1 else m0)
               in if 0 \<le> e then of_nat (m * 2 ^ nat e)
                  else of_nat m / of_nat (2 ^ nat (- e)))"

text \<open>
  The numbers the duration arithmetic can produce: \<^verbatim>\<open>d * 1000 / t\<close> is a double,
  \<^verbatim>\<open>Infinity\<close> or \<^verbatim>\<open>NaN\<close>.  The product is the nearest double of the exact product
  (\<open>toNumber\<close>), the quotient the nearest double of the exact quotient.  \<^verbatim>\<open>Math.round\<close>
  rounds halves up, and \<^verbatim>\<open>setUint32\<close> stores a number truncated and reduced modulo
  \<open>2 ^ 32\<close>, with \<^verbatim>\<open>Infinity\<close> and \<^verbatim>\<open>NaN\<close> stored as 0.
\<close>

datatype jsnum = Num rat | Infinity | NaN

definition scaleDuration :: "nat \<Rightarrow> nat \<Rightarrow> nat \<Rightarrow> jsnum" where
  "scaleDuration d movieTimescale t =
     (if t = 0 then (if toNumber (d * movieTimescale) = 0 then NaN else Infinity)
      else Num (divDouble (toNumber (d * movieTimescale)) t))"

definition mathRound :: "jsnum \<Rightarrow> jsnum" where
  "mathRound x = (case x of Num q \<Rightarrow> Num (of_int \<lfloor>q + 1 / 2\<rfloor>) | Infinity \<Rightarrow> Infinity | NaN \<Rightarrow> NaN)"

definition toUint32 :: "jsnum \<Rightarrow> nat" where
  "toUint32 x =
     (case x of Num q \<Rightarrow> nat ((if 0 \<le> q then \<lfloor>q\<rfloor> else \<lceil>q\<rceil>) mod 4294967296)
      | Infinity \<Rightarrow> 0 | NaN \<Rightarrow> 0)"

definition js_gt :: "jsnum \<Rightarrow> jsnum \<Rightarrow> bool" where
  "js_gt x y =
     (case (x, y) of (Num a, Num b) \<Rightarrow> b < a | (Infinity, Num b) \<Rightarrow> True | _ \<Rightarrow> False)"

text \<open>
  The run-length loop that the \<^verbatim>\<open>stts\<close> and \<^verbatim>\<open>ctts\<close> builders each spell out (lines
  564-575, 633-645, 1009-1024, 1106-1122), with its state \<^verbatim>\<open>(current, count, entries)\<close>.
\<close>

fun runLengths :: "'a list \<Rightarrow> 'a \<Rightarrow> nat \<Rightarrow> (nat \<times> 'a) list \<Rightarrow> (nat \<times> 'a) list" where
  "runLengths [] current count entries =
     (if count > 0 then entries @ [(count, current)] else entries)"
| "runLengths (x # xs) current count entries =
     (if x = current then runLengths xs current (count + 1) entries
      else runLengths xs x 1 (entries @ [(count, current)]))"

text \<open>
  \<^verbatim>\<open>buildStts(samples)\<close>, lines 1007-1035, and the same code in \<^verbatim>\<open>buildTrak\<close>, lines
  563-584.  The first duration is \<^verbatim>\<open>samples[0]?.duration || 1\<close>.
\<close>

definition sttsEntries :: "sample list \<Rightarrow> (nat \<times> nat) list" where
  "sttsEntries samples =
     runLengths (map sample_duration samples)
       (case samples of [] \<Rightarrow> 1
        | s # _ \<Rightarrow> if sample_duration s = 0 then 1 else sample_duration s)
       0 []"

definition buildStts :: "sample list \<Rightarrow> bytes" where
  "buildStts samples =
     makeBox ''stts''
       (be32 0 @ be32 (length (sttsEntries samples))
         @ concat (map (\<lambda>(count, duration). be32 count @ be32 duration) (sttsEntries samples)))"

text \<open>
  The sync-sample table: the 1-based positions of the samples with \<^verbatim>\<open>is_sync\<close>.
  \<^verbatim>\<open>buildStss(samples)\<close>, lines 1038-1056, returns \<^verbatim>\<open>null\<close> when there are none or
  when all are; \<^verbatim>\<open>buildTrak\<close>, lines 612-627, builds the box when there are more than
  none and fewer than all.
\<close>

definition syncSamples :: "sample list \<Rightarrow> nat list" where
  "syncSamples samples = map (\<lambda>i. i + 1) (filter (\<lambda>i. is_sync (samples ! i)) [0..<length samples])"

definition stssBox :: "nat list \<Rightarrow> bytes" where
  "stssBox sync = makeBox ''stss'' (be32 0 @ be32 (length sync) @ concat (map be32 sync))"

definition buildStss :: "sample list \<Rightarrow> bytes option" where
  "buildStss samples =
     (if length (syncSamples samples) = 0 \<or> length (syncSamples samples) = length samples
      then None else Some (stssBox (syncSamples samples)))"

definition stssOfTrak :: "track \<Rightarrow> bytes option" where
  "stssOfTrak track =
     (if track_type track = ''video'' then
        (if length (syncSamples (track_samples track)) > 0
            \<and> length (syncSamples (track_samples track)) < length (track_samples track)
         then Some (stssBox (syncSamples (track_samples track))) else None)
      else None)"

text \<open>
  \<^verbatim>\<open>buildCtts(samples)\<close>, lines 1094-1133, and the same code in \<^verbatim>\<open>buildTrak\<close>, lines
  629-655.  \<^verbatim>\<open>setInt32\<close> stores the offset in two's complement.
\<close>

definition cttsEntries :: "sample list \<Rightarrow> (nat \<times> int) list" where
  "cttsEntries samples =
     runLengths (map (\<lambda>s. sample_cts s - sample_dts s) samples)
       (case samples of [] \<Rightarrow> 0 | s # _ \<Rightarrow> sample_cts s - sample_dts s)
       0 []"

definition buildCtts :: "sample list \<Rightarrow> bytes option" where
  "buildCtts samples =
     (if list_ex (\<lambda>s. sample_cts s \<noteq> sample_dts s) samples then
        Some (makeBox ''ctts''
                (be32 0 @ be32 (length (cttsEntries samples))
                  @ concat (map (\<lambda>(count, off). be32 count @ be32 (nat (off mod 4294967296)))
                              (cttsEntries samples))))
      else None)"

text \<open>The fixed-layout boxes, lines 517-558 and 873-965.\<close>

definition buildTkhd :: "track \<Rightarrow> jsnum \<Rightarrow> bytes" where
  "buildTkhd track trackDuration =
     (let c0 = replicate 84 0;
          c1 = putUint32 c0 0 3;
          c2 = putUint32 c1 12 (track_id track);
          c3 = putUint32 c2 20 (toUint32 trackDuration);
          c4 = putUint16 c3 36 (if track_type track = ''audio'' then 256 else 0);
          c5 = putUint32 c4 40 65536;
          c6 = putUint32 c5 56 65536;
          c7 = putUint32 c6 72 1073741824;
          c8 = putUint32 c7 76 (track_width track * 65536);
          c9 = putUint32 c8 80 (track_height track * 65536)
      in makeBox ''tkhd'' c9)"

definition buildMdhd :: "nat \<Rightarrow> nat \<Rightarrow> bytes" where
  "buildMdhd timescale duration =
     (let c0 = replicate 24 0;
          c1 = putUint32 c0 12 timescale;
          c2 = putUint32 c1 16 duration;
          c3 = putUint16 c2 20 21956
      in makeBox ''mdhd'' c3)"

definition buildHdlr :: "string \<Rightarrow> bytes" where
  "buildHdlr type =
     (let handlerType = (if type = ''video'' then ''vide'' else ''soun'');
          name = (if type = ''video'' then ''VideoHandler'' else ''SoundHandler'')
      in makeBox ''hdlr''
           (replicate 8 0 @ typeCodes handlerType @ replicate 12 0 @ charCodes name @ [0]))"

definition buildVmhd :: bytes where
  "buildVmhd = makeBox ''vmhd'' [0, 0, 0, 1, 0, 0, 0, 0, 0, 0, 0, 0]"

definition buildSmhd :: bytes where
  "buildSmhd = makeBox ''smhd'' (replicate 8 0)"

definition buildDref :: bytes where
  "buildDref = makeBox ''dref'' ([0, 0, 0, 0, 0, 0, 0, 1] @ makeBox ''url '' [0, 0, 0, 1])"

definition buildDinf :: bytes where
  "buildDinf = makeBox ''dinf'' buildDref"

definition buildStsc :: "sample list \<Rightarrow> bytes" where
  "buildStsc samples =
     (let c0 = replicate 20 0;
          c1 = putUint32 c0 4 1;
          c2 = putUint32 c1 8 1;
          c3 = putUint32 c2 12 (length samples);
          c4 = putUint32 c3 16 1
      in makeBox ''stsc'' c4)"

text \<open>The size of a sample is \<^verbatim>\<open>s.data?.byteLength || 0\<close>.\<close>

definition sampleSize :: "sample \<Rightarrow> nat" where
  "sampleSize s = (case sample_data s of None \<Rightarrow> 0 | Some d \<Rightarrow> length d)"

definition buildStsz :: "sample list \<Rightarrow> bytes" where
  "buildStsz samples =
     makeBox ''stsz'' (be32 0 @ be32 0 @ be32 (length samples) @ concat (map (\<lambda>s. be32 (sampleSize s)) samples))"

definition buildStco :: "nat \<Rightarrow> bytes" where
  "buildStco offset =
     (let c0 = replicate 12 0;
          c1 = putUint32 c0 4 1;
          c2 = putUint32 c1 8 offset
      in makeBox ''stco'' c2)"

text \<open>
  The two \<^verbatim>\<open>stsd\<close> sources: \<^verbatim>\<open>track.rawStsd || makeBox('stsd', new Uint8Array(8))\<close>
  (line 561), and \<^verbatim>\<open>buildStsd(track)\<close> (lines 968-988), which wraps the serialized entry
  and falls back to the empty table when there is no entry or the serializer throws.
\<close>

definition stsdOfRaw :: "track \<Rightarrow> bytes" where
  "stsdOfRaw track = (case rawStsd track of Some raw \<Rightarrow> raw | None \<Rightarrow> makeBox ''stsd'' (replicate 8 0))"

definition buildStsd :: "track \<Rightarrow> bytes" where
  "buildStsd track =
     (case stsdEntry track of
        Some (Inr entryData) \<Rightarrow> makeBox ''stsd'' (be32 0 @ be32 1 @ entryData)
      | _ \<Rightarrow> makeBox ''stsd'' (replicate 8 0))"

text \<open>
  The body shared by \<^verbatim>\<open>buildTrak(track, dataOffset)\<close> of \<^verbatim>\<open>buildMP4WithRawStsd\<close> (lines
  514-666) and \<^verbatim>\<open>buildTrakWithOffset(track, movieTimescale, dataOffset)\<close> of
  \<^verbatim>\<open>buildMP4File\<close> (lines 1299-1341), which differ in the \<^verbatim>\<open>stsd\<close> box only.
\<close>

definition stblParts :: "bytes \<Rightarrow> track \<Rightarrow> nat \<Rightarrow> bytes list" where
  "stblParts stsd track dataOffset =
     [stsd, buildStts (track_samples track), buildStsc (track_samples track),
      buildStsz (track_samples track), buildStco dataOffset]
     @ (case stssOfTrak track of Some stss \<Rightarrow> [stss] | None \<Rightarrow> [])
     @ (case buildCtts (track_samples track) of Some ctts \<Rightarrow> [ctts] | None \<Rightarrow> [])"

definition trakWith :: "bytes \<Rightarrow> track \<Rightarrow> nat \<Rightarrow> nat \<Rightarrow> bytes" where
  "trakWith stsd track movieTimescale dataOffset =
     (let trackDuration =
            mathRound (scaleDuration (track_duration track) movieTimescale (track_timescale track));
          tkhd = buildTkhd track trackDuration;
          mdhd = buildMdhd (track_timescale track) (track_duration track);
          hdlr = buildHdlr (track_type track);
          mediaHeader = (if track_type track = ''video'' then buildVmhd else buildSmhd);
          dinf = buildDinf;
          stbl = makeBox ''stbl'' (concat (stblParts stsd track dataOffset));
          minf = makeBox ''minf'' (mediaHeader @ dinf @ stbl);
          mdia = makeBox ''mdia'' (mdhd @ hdlr @ minf)
      in makeBox ''trak'' (tkhd @ mdia))"

definition buildTrak :: "track \<Rightarrow> nat \<Rightarrow> bytes" where
  "buildTrak track dataOffset = trakWith (stsdOfRaw track) track 1000 dataOffset"

definition buildTrakWithOffset :: "track \<Rightarrow> nat \<Rightarrow> nat \<Rightarrow> bytes" where
  "buildTrakWithOffset track movieTimescale dataOffset =
     trakWith (buildStsd track) track movieTimescale dataOffset"

text \<open>The \<^verbatim>\<open>ftyp\<close> boxes, lines 473-480 and 830-842, and the \<^verbatim>\<open>mvhd\<close> box.\<close>

definition ftypRaw :: bytes where
  "ftypRaw = makeBox ''ftyp'' (charCodes ''isom'' @ be32 512 @ charCodes ''isomiso2avc1'')"

definition buildFtyp :: bytes where
  "buildFtyp = makeBox ''ftyp'' (charCodes ''isom'' @ be32 512 @ charCodes ''isomiso2mp41'')"

definition maxDuration :: "track list \<Rightarrow> nat \<Rightarrow> jsnum" where
  "maxDuration tracks movieTimescale =
     foldl (\<lambda>m t. let d = scaleDuration (track_duration t) movieTimescale (track_timescale t)
                   in if js_gt d m then d else m) (Num 0) tracks"

definition buildMvhd :: "track list \<Rightarrow> nat \<Rightarrow> jsnum \<Rightarrow> bytes" where
  "buildMvhd tracks timescale duration =
     (let c0 = replicate 100 0;
          c1 = putUint32 c0 12 timescale;
          c2 = putUint32 c1 16 (toUint32 duration);
          c3 = putUint32 c2 20 65536;
          c4 = putUint16 c3 24 256;
          c5 = putUint32 c4 36 65536;
          c6 = putUint32 c5 52 65536;
          c7 = putUint32 c6 68 1073741824;
          c8 = putUint32 c7 96 (length tracks + 1)
      in makeBox ''mvhd'' c8)"

text \<open>
  The media data: every sample's bytes, track after track (lines 504-511 and 1248-1262),
  and the bytes one track contributes (lines 682-688 and 1290-1296).
\<close>

definition sampleBytes :: "sample \<Rightarrow> bytes" where
  "sampleBytes s = (case sample_data s of None \<Rightarrow> [] | Some d \<Rightarrow> d)"

definition trackData :: "track \<Rightarrow> bytes" where
  "trackData track = concat (map sampleBytes (track_samples track))"

definition trackDataSize :: "track \<Rightarrow> nat" where
  "trackDataSize track = sum_list (map sampleSize (track_samples track))"

definition mdatContent :: "track list \<Rightarrow> bytes" where
  "mdatContent tracks = concat (map trackData tracks)"

text \<open>
  The second pass, lines 674-690 and 1281-1297: the loop over the tracks with the running
  offset.
\<close>

fun finalTraks :: "(track \<Rightarrow> nat \<Rightarrow> bytes) \<Rightarrow> track list \<Rightarrow> nat \<Rightarrow> bytes list" where
  "finalTraks build [] offset = []"
| "finalTraks build (track # tracks) offset =
     build track offset # finalTraks build tracks (offset + trackDataSize track)"

text \<open>\<^verbatim>\<open>buildMP4WithRawStsd(tracks, fileInfo)\<close>, lines 448-698.\<close>

definition mdatStartRaw :: "track list \<Rightarrow> nat" where
  "mdatStartRaw tracks =
     (let mvhd = buildMvhd tracks 1000 (mathRound (maxDuration tracks 1000));
          tempTraks = map (\<lambda>t. buildTrak t 0) tracks;
          tempMoov = makeBox ''moov'' (mvhd @ concat tempTraks)
      in length ftypRaw + length tempMoov + 8)"

definition buildMP4WithRawStsd :: "track list \<Rightarrow> bytes" where
  "buildMP4WithRawStsd tracks =
     (let mvhd = buildMvhd tracks 1000 (mathRound (maxDuration tracks 1000));
          mdatStart = mdatStartRaw tracks;
          moov = makeBox ''moov'' (mvhd @ concat (finalTraks buildTrak tracks mdatStart));
          mdat = makeBox ''mdat'' (mdatContent tracks)
      in ftypRaw @ moov @ mdat)"

text \<open>\<^verbatim>\<open>buildMP4File(tracks, fileInfo)\<close>, lines 802-1353.\<close>

definition realMdatStart :: "track list \<Rightarrow> nat" where
  "realMdatStart tracks =
     (let tempMvhd = buildMvhd tracks 1000 (mathRound (maxDuration tracks 1000));
          tempTraks = map (\<lambda>t. buildTrakWithOffset t 1000 0) tracks;
          tempMoov = makeBox ''moov'' (tempMvhd @ concat tempTraks)
      in length buildFtyp + length tempMoov + 8)"

definition buildMP4File :: "track list \<Rightarrow> bytes" where
  "buildMP4File tracks =
     (let tempMvhd = buildMvhd tracks 1000 (mathRound (maxDuration tracks 1000));
          finalMoov = makeBox ''moov''
            (tempMvhd @ concat (finalTraks (\<lambda>t. buildTrakWithOffset t 1000) tracks
                                  (realMdatStart tracks)));
          mdat = makeBox ''mdat'' (mdatContent tracks)
      in buildFtyp @ finalMoov @ mdat)"


section \<open>Sample collector\<close>

text \<open>
  The MP4Box library and the JavaScript engine are outside the repository.  What the
  muxer observes of them is a parameter of the model:
  \<^item> \<open>loaded\<close>: whether the global \<^verbatim>\<open>MP4Box\<close> is defined;
  \<^item> \<open>demux\<close>: the callbacks the library makes on the handlers of a file while a buffer is
    appended and flushed, in order; they all happen before the timer of the caller
    fires.  \<open>OnError\<close> stands for a call of \<^verbatim>\<open>file.onError\<close> and for an exception
    thrown by \<^verbatim>\<open>appendBuffer\<close> or \<^verbatim>\<open>flush\<close>.  The callbacks depend on the tracks the
    caller has registered for extraction: all of them, or the first one;
  \<^item> \<open>sortTracks\<close>: \<^verbatim>\<open>tracks.sort((a, b) => (a.type === 'video' ? -1 : 1))\<close>; the
    comparator does not look at \<open>b\<close>, so ECMAScript leaves the order to the engine;
  \<^item> \<open>entryOf\<close>: the serialized first \<^verbatim>\<open>stsd\<close> entry of a track of a parsed file;
  \<^item> \<open>remux\<close>: the outcome of building the output file with \<^verbatim>\<open>addTrack\<close>,
    \<^verbatim>\<open>addSample\<close> and \<^verbatim>\<open>getBuffer\<close> (lines 1581-1754).
\<close>

record track_info =
  info_id :: nat
  info_type :: string
  nb_samples :: nat
  info_timescale :: nat
  info_duration :: nat
  video_width :: "nat option"
  video_height :: "nat option"
  info_track_width :: nat
  info_track_height :: nat

datatype event = OnReady "track_info list" | OnSamples nat "sample list" | OnError

datatype extraction = AllTracks | FirstTrack

text \<open>The object \<^verbatim>\<open>{ info, samples, file }\<close> that \<^verbatim>\<open>parseFile\<close> resolves with.\<close>

record parse_result =
  result_info :: "track_info list option"
  result_samples :: "sample list"

datatype remux_outcome = AddTrackThrew | GetBufferThrew | Buffer "bytes option"

record env =
  loaded :: bool
  demux :: "extraction \<Rightarrow> bytes \<Rightarrow> event list"
  sortTracks :: "track list \<Rightarrow> track list"
  entryOf :: "bytes \<Rightarrow> nat \<Rightarrow> (error + bytes) option"
  remux :: "parse_result \<Rightarrow> parse_result \<Rightarrow> remux_outcome"

text \<open>
  The state of a collection: \<^verbatim>\<open>fileInfo\<close> (its \<^verbatim>\<open>tracks\<close>) and the dictionary
  \<^verbatim>\<open>trackSamples\<close>.
\<close>

record collector =
  fileInfo :: "track_info list option"
  trackSamples :: "nat \<rightharpoonup> sample list"

definition collector0 :: collector where
  "collector0 = \<lparr>fileInfo = None, trackSamples = Map.empty\<rparr>"

text \<open>\<^verbatim>\<open>file.onReady\<close>, lines 342-351 and 708-717.\<close>

definition onReady :: "collector \<Rightarrow> track_info list \<Rightarrow> collector" where
  "onReady st info =
     \<lparr>fileInfo = Some info,
      trackSamples = fold (\<lambda>t m. m(info_id t \<mapsto> [])) info (trackSamples st)\<rparr>"

text \<open>The test \<^verbatim>\<open>allDone\<close>, lines 358-360 and 726-728.\<close>

definition allDone :: "collector \<Rightarrow> bool" where
  "allDone st =
     (case fileInfo st of
        None \<Rightarrow> False
      | Some tracks \<Rightarrow>
          list_all (\<lambda>t. case trackSamples st (info_id t) of
                           None \<Rightarrow> False
                         | Some samples \<Rightarrow> nb_samples t \<le> length samples) tracks)"

text \<open>\<^verbatim>\<open>a || b\<close> on an optional number and a number.\<close>

definition orElse :: "nat option \<Rightarrow> nat \<Rightarrow> nat" where
  "orElse a b = (case a of None \<Rightarrow> b | Some x \<Rightarrow> if x = 0 then b else x)"

text \<open>
  The loop of \<^verbatim>\<open>buildOutput\<close>, lines 379-414, over \<^verbatim>\<open>fileInfo.tracks\<close> with the list
  \<^verbatim>\<open>tracks\<close> built so far; a track gets the identifier \<^verbatim>\<open>tracks.length + 1\<close>.
\<close>

definition hasData :: "sample \<Rightarrow> bool" where
  "hasData s = (case sample_data s of None \<Rightarrow> False | Some d \<Rightarrow> length d > 0)"

fun outputTracks ::
  "bytes option \<Rightarrow> bytes option \<Rightarrow> (nat \<rightharpoonup> sample list) \<Rightarrow> track_info list \<Rightarrow> track list
     \<Rightarrow> track list" where
  "outputTracks videoStsd audioStsd samplesOf [] tracks = tracks"
| "outputTracks videoStsd audioStsd samplesOf (t # rest) tracks =
     (case samplesOf (info_id t) of
        None \<Rightarrow> outputTracks videoStsd audioStsd samplesOf rest tracks
      | Some samples \<Rightarrow>
          if samples = [] then outputTracks videoStsd audioStsd samplesOf rest tracks
          else
            let filteredSamples = filter hasData samples;
                calculatedDuration =
                  (if info_duration t = 0
                   then foldl (\<lambda>sum s. toNumber (sum + sample_duration s)) 0 filteredSamples
                   else info_duration t)
            in outputTracks videoStsd audioStsd samplesOf rest
                 (tracks @
                  [\<lparr>track_id = length tracks + 1, track_type = info_type t,
                    track_timescale = info_timescale t, track_duration = calculatedDuration,
                    track_width = orElse (video_width t) (info_track_width t),
                    track_height = orElse (video_height t) (info_track_height t),
                    track_samples = filteredSamples,
                    rawStsd = (if info_type t = ''video'' then videoStsd else audioStsd),
                    stsdEntry = None\<rparr>]))"

text \<open>
  \<^verbatim>\<open>buildOutput()\<close>, lines 375-427: the tracks, sorted, go to the builder.  Its
  \<^verbatim>\<open>try\<close> turns an exception into a rejection; reading \<^verbatim>\<open>fileInfo.tracks\<close> of a
  \<^verbatim>\<open>null\<close> \<^verbatim>\<open>fileInfo\<close> is the one the model has.
\<close>

definition buildOutput :: "env \<Rightarrow> bytes option \<Rightarrow> bytes option \<Rightarrow> collector \<Rightarrow> error + bytes" where
  "buildOutput e videoStsd audioStsd st =
     (case fileInfo st of
        None \<Rightarrow> Inl TypeError
      | Some infoTracks \<Rightarrow>
          Inr (buildMP4WithRawStsd
                 (sortTracks e (outputTracks videoStsd audioStsd (trackSamples st) infoTracks []))))"

text \<open>
  The collection of \<^verbatim>\<open>defragmentWithRawStsd\<close>, lines 337-373 and 438-443, as a run
  over the callbacks: the result is the value the promise is settled with.
  \<^item> \<^verbatim>\<open>onSamples\<close> appends to \<^verbatim>\<open>trackSamples[trackId]\<close> without a test; on a track that
    \<^verbatim>\<open>onReady\<close> has not registered this throws a TypeError, which leaves the library
    through \<^verbatim>\<open>appendBuffer\<close> and reaches \<^verbatim>\<open>.catch(reject)\<close>;
  \<^item> when every track has its declared number of samples, \<^verbatim>\<open>buildOutput\<close> settles the
    promise;
  \<^item> \<^verbatim>\<open>onError\<close> rejects;
  \<^item> when the callbacks are over and \<^verbatim>\<open>resolved\<close> is still false, the timer of lines
    438-443 fires and rejects with \<^verbatim>\<open>new Error('Timeout')\<close>.
\<close>

fun collectRaw ::
  "env \<Rightarrow> bytes option \<Rightarrow> bytes option \<Rightarrow> collector \<Rightarrow> event list \<Rightarrow> error + bytes" where
  "collectRaw e videoStsd audioStsd st [] = Inl Timeout"
| "collectRaw e videoStsd audioStsd st (OnReady info # events) =
     collectRaw e videoStsd audioStsd (onReady st info) events"
| "collectRaw e videoStsd audioStsd st (OnSamples trackId samples # events) =
     (case trackSamples st trackId of
        None \<Rightarrow> Inl TypeError
      | Some old \<Rightarrow>
          let st' = st\<lparr>trackSamples := (trackSamples st)(trackId \<mapsto> old @ samples)\<rparr>
          in if allDone st' then buildOutput e videoStsd audioStsd st'
             else collectRaw e videoStsd audioStsd st' events)"
| "collectRaw e videoStsd audioStsd st (OnError # events) = Inl DemuxError"

text \<open>
  \<^verbatim>\<open>defragmentWithRawStsd(videoData, audioData, onProgress)\<close>, lines 312-445: the value
  its promise is settled with, and the heap it leaves behind.
\<close>

definition defragmentWithRawStsd :: "env \<Rightarrow> heap \<Rightarrow> (error + bytes) \<times> heap" where
  "defragmentWithRawStsd e h =
     (let videoStsd = extractStsdFromMoov (videoData h);
          audioStsd = extractStsdFromMoov (audioData h)
      in if videoStsd = None then (Inl NoVideoStsd, h)
         else (case binaryMuxFragmentedMP4 h of
                 (Inl err, h') \<Rightarrow> (Inl err, h')
               | (Inr fragmented, h') \<Rightarrow>
                   (collectRaw e videoStsd audioStsd collector0
                      (demux e AllTracks fragmented), h')))"

text \<open>
  \<^verbatim>\<open>defragmentMP4(fragmentedData, onProgress)\<close>, lines 701-799: here \<^verbatim>\<open>onSamples\<close>
  tests \<^verbatim>\<open>trackSamples[trackId]\<close>, and an error, a small output and the timer of lines
  792-797 all resolve with the fragmented input.
\<close>

fun manualTracks ::
  "(nat \<Rightarrow> (error + bytes) option) \<Rightarrow> (nat \<rightharpoonup> sample list) \<Rightarrow> track_info list \<Rightarrow> track list
     \<Rightarrow> track list" where
  "manualTracks entry samplesOf [] tracks = tracks"
| "manualTracks entry samplesOf (t # rest) tracks =
     (case samplesOf (info_id t) of
        None \<Rightarrow> manualTracks entry samplesOf rest tracks
      | Some samples \<Rightarrow>
          if samples = [] then manualTracks entry samplesOf rest tracks
          else manualTracks entry samplesOf rest
                 (tracks @
                  [\<lparr>track_id = length tracks + 1, track_type = info_type t,
                    track_timescale = info_timescale t, track_duration = info_duration t,
                    track_width = orElse (video_width t) (info_track_width t),
                    track_height = orElse (video_height t) (info_track_height t),
                    track_samples = samples,
                    rawStsd = None,
                    stsdEntry = entry (info_id t)\<rparr>]))"

definition buildManualMP4 :: "env \<Rightarrow> bytes \<Rightarrow> collector \<Rightarrow> bytes" where
  "buildManualMP4 e fragmentedData st =
     (case fileInfo st of
        None \<Rightarrow> fragmentedData
      | Some infoTracks \<Rightarrow>
          let output = buildMP4File
                 (manualTracks (entryOf e fragmentedData) (trackSamples st) infoTracks [])
          in if length output > 10000 then output else fragmentedData)"

fun collectManual :: "env \<Rightarrow> bytes \<Rightarrow> collector \<Rightarrow> event list \<Rightarrow> bytes" where
  "collectManual e fragmentedData st [] = fragmentedData"
| "collectManual e fragmentedData st (OnReady info # events) =
     collectManual e fragmentedData (onReady st info) events"
| "collectManual e fragmentedData st (OnSamples trackId samples # events) =
     (let st' = (case trackSamples st trackId of
                   None \<Rightarrow> st
                 | Some old \<Rightarrow> st\<lparr>trackSamples := (trackSamples st)(trackId \<mapsto> old @ samples)\<rparr>)
      in if allDone st' then buildManualMP4 e fragmentedData st'
         else collectManual e fragmentedData st' events)"
| "collectManual e fragmentedData st (OnError # events) = fragmentedData"

definition defragmentMP4 :: "env \<Rightarrow> bytes \<Rightarrow> bytes" where
  "defragmentMP4 e fragmentedData =
     collectManual e fragmentedData collector0 (demux e AllTracks fragmentedData)"

text \<open>
  \<^verbatim>\<open>parseFile(data, name)\<close>, lines 1503-1557.  Its handlers have no guard on the
  promise, so the state keeps the first settlement: a rejection, the resolution with
  \<^verbatim>\<open>{ info: null, samples: [], file: null }\<close> of a file without tracks, or a resolution
  with \<^verbatim>\<open>{ info, samples, file }\<close>, in which \<^verbatim>\<open>samples\<close> is the array the handler goes
  on appending to.
\<close>

datatype settlement = Rejected error | ResolvedNoTracks | Resolved "track_info list option"

record parse_state =
  parse_info :: "track_info list option"
  parse_samples :: "sample list"
  totalSamples :: nat
  extractionDone :: bool
  settled :: "settlement option"

definition parse_state0 :: parse_state where
  "parse_state0 = \<lparr>parse_info = None, parse_samples = [], totalSamples = 0,
                   extractionDone = False, settled = None\<rparr>"

definition settle :: "parse_state \<Rightarrow> settlement \<Rightarrow> parse_state" where
  "settle st x = (if settled st = None then st\<lparr>settled := Some x\<rparr> else st)"

fun parseStep :: "parse_state \<Rightarrow> event \<Rightarrow> parse_state" where
  "parseStep st (OnReady info) =
     (case info of
        [] \<Rightarrow> settle (st\<lparr>parse_info := Some info\<rparr>) ResolvedNoTracks
      | t # _ \<Rightarrow> st\<lparr>parse_info := Some info, totalSamples := nb_samples t\<rparr>)"
| "parseStep st (OnSamples trackId sampleBatch) =
     (let st' = st\<lparr>parse_samples := parse_samples st @ sampleBatch\<rparr>
      in if totalSamples st' \<le> length (parse_samples st') \<and> \<not> extractionDone st'
         then settle (st'\<lparr>extractionDone := True\<rparr>) (Resolved (parse_info st'))
         else st')"
| "parseStep st OnError = settle st (Rejected DemuxError)"

text \<open>
  After the callbacks the timer of lines 1548-1555 fires: when \<^verbatim>\<open>extractionDone\<close> is
  still false it resolves with what has been gathered.  The caller reads the result
  after the callbacks have run, so it sees every sample appended to the shared array.
\<close>

definition parseTimer :: "parse_state \<Rightarrow> parse_state" where
  "parseTimer st =
     (if \<not> extractionDone st
      then settle (st\<lparr>extractionDone := True\<rparr>) (Resolved (parse_info st)) else st)"

definition parseFile :: "event list \<Rightarrow> (error + parse_result) option" where
  "parseFile events =
     (let st = parseTimer (foldl parseStep parse_state0 events)
      in case settled st of
           None \<Rightarrow> None
         | Some (Rejected err) \<Rightarrow> Some (Inl err)
         | Some ResolvedNoTracks \<Rightarrow> Some (Inr \<lparr>result_info = None, result_samples = []\<rparr>)
         | Some (Resolved info) \<Rightarrow>
             Some (Inr \<lparr>result_info = info, result_samples = parse_samples st\<rparr>))"


section \<open>The top-level mux operation\<close>

text \<open>
  The acceptance test \<^verbatim>\<open>result.byteLength > videoData.byteLength * 0.9\<close>.  For byte
  lengths, which are integers below \<open>2 ^ 53\<close>, the double product decides the same as
  the exact comparison of \<open>10 * result\<close> with \<open>9 * video\<close>.
\<close>

definition exceeds90 :: "nat \<Rightarrow> nat \<Rightarrow> bool" where
  "exceeds90 resultLength videoLength = (9 * videoLength < 10 * resultLength)"

text \<open>
  The last strategy of \<^verbatim>\<open>muxVideoAudio\<close>, lines 1559-1759: both inputs are parsed, the
  library builds the output, and every failure returns \<^verbatim>\<open>videoData\<close>.  \<open>None\<close> is an
  \<^verbatim>\<open>await\<close> on a promise that is never settled.
\<close>

definition remuxWithLibrary :: "env \<Rightarrow> heap \<Rightarrow> bytes option" where
  "remuxWithLibrary e h =
     (case parseFile (demux e FirstTrack (videoData h)) of
        None \<Rightarrow> None
      | Some (Inl err) \<Rightarrow> Some (videoData h)
      | Some (Inr videoResult) \<Rightarrow>
          (case parseFile (demux e FirstTrack (audioData h)) of
             None \<Rightarrow> None
           | Some (Inl err) \<Rightarrow> Some (videoData h)
           | Some (Inr audioResult) \<Rightarrow>
               (case result_info videoResult of
                  None \<Rightarrow> Some (videoData h)
                | Some [] \<Rightarrow> Some (videoData h)
                | Some (vTrack # _) \<Rightarrow>
                    (case remux e videoResult audioResult of
                       AddTrackThrew \<Rightarrow> Some (videoData h)
                     | GetBufferThrew \<Rightarrow> Some (videoData h)
                     | Buffer None \<Rightarrow> Some (videoData h)
                     | Buffer (Some output) \<Rightarrow>
                         if length output > 10000 then Some output else Some (videoData h)))))"

text \<open>
  \<^verbatim>\<open>muxVideoAudio(videoData, audioData, onProgress)\<close>, lines 1471-1760: \<open>None\<close> when it
  never returns, otherwise the value returned or the exception thrown, and the heap.
  A strategy is accepted when it returns and its output passes the acceptance test; an
  exception is caught and logged.
\<close>

definition accepted :: "error + bytes \<Rightarrow> heap \<Rightarrow> bool" where
  "accepted r h =
     (case r of Inl err \<Rightarrow> False
      | Inr result \<Rightarrow> exceeds90 (length result) (length (videoData h)))"

definition muxVideoAudio :: "env \<Rightarrow> heap \<Rightarrow> ((error + bytes) \<times> heap) option" where
  "muxVideoAudio e h =
     (if \<not> loaded e then Some (Inl MP4BoxNotLoaded, h)
      else
        (case defragmentWithRawStsd e h of
           (r1, h1) \<Rightarrow>
             if accepted r1 h1 then Some (r1, h1)
             else
               (case binaryMuxFragmentedMP4 h1 of
                  (r2, h2) \<Rightarrow>
                    if accepted r2 h2 then Some (r2, h2)
                    else (case remuxWithLibrary e h2 of
                            None \<Rightarrow> None
                          | Some output \<Rightarrow> Some (Inr output, h2)))))"


section \<open>Auxiliary notions for the statements\<close>

text \<open>
  Box headers laid end to end from an offset: each header sits where the one before it
  ends, and each has a size of at least 8.
\<close>

fun consecutive :: "nat \<Rightarrow> box list \<Rightarrow> bool" where
  "consecutive off [] = True"
| "consecutive off (b # bs) =
     (box_offset b = off \<and> 8 \<le> box_size b \<and> consecutive (off + box_size b) bs)"

text \<open>Two sample buffers: a complete \<^verbatim>\<open>ftyp\<close> box of 8 bytes followed by the header of a
  \<^verbatim>\<open>moov\<close> box that declares 32 bytes of which 8 are present; and a header with the
  size field 1 followed by 3 bytes.\<close>

definition truncatedBuffer :: bytes where
  "truncatedBuffer = [0, 0, 0, 8, 0x66, 0x74, 0x79, 0x70, 0, 0, 0, 32, 0x6D, 0x6F, 0x6F, 0x76]"

definition truncatedLargeSize :: bytes where
  "truncatedLargeSize = [0, 0, 0, 1, 0x66, 0x74, 0x79, 0x70, 0, 0, 0]"

declare parseBoxes_loop.simps [simp del]

text \<open>Run-length entries expanded again: each value repeated \<open>count\<close> times.\<close>

definition expandRuns :: "(nat \<times> 'a) list \<Rightarrow> 'a list" where
  "expandRuns entries = concat (map (\<lambda>(count, x). replicate count x) entries)"

text \<open>Sample values for the statements below.\<close>

definition sampleOfDuration :: "nat \<Rightarrow> sample" where
  "sampleOfDuration d =
     \<lparr>sample_data = Some [0], sample_duration = d, sample_dts = 0, sample_cts = 0, is_sync = True\<rparr>"

definition sampleOfSync :: "bool \<Rightarrow> sample" where
  "sampleOfSync k =
     \<lparr>sample_data = Some [0], sample_duration = 1, sample_dts = 0, sample_cts = 0, is_sync = k\<rparr>"

definition videoTrackOf :: "sample list \<Rightarrow> track" where
  "videoTrackOf samples =
     \<lparr>track_id = 1, track_type = ''video'', track_timescale = 1000, track_duration = 0,
      track_width = 0, track_height = 0, track_samples = samples, rawStsd = None,
      stsdEntry = None\<rparr>"

text \<open>
  A movie box with one track (track header of version 0 with the given identifier) and a
  \<^verbatim>\<open>mvex\<close> box with one \<^verbatim>\<open>trex\<close>, written with the box writer; its track and its
  \<^verbatim>\<open>trex\<close> alone.
\<close>

definition sampleTrak :: "nat \<Rightarrow> bytes" where
  "sampleTrak trackId =
     makeBox ''trak'' (makeBox ''tkhd'' (be32 0 @ be32 0 @ be32 0 @ be32 trackId @ be32 0))"

definition sampleTrex :: "nat \<Rightarrow> bytes" where
  "sampleTrex trackId = makeBox ''trex'' (be32 0 @ be32 trackId @ be32 1 @ be32 0)"

definition sampleMoov :: "nat \<Rightarrow> bytes" where
  "sampleMoov trackId =
     makeBox ''moov'' (sampleTrak trackId @ makeBox ''mvex'' (sampleTrex trackId))"

text \<open>
  The smallest streams on which the fragmented assembly completes: a video buffer with a
  \<^verbatim>\<open>ftyp\<close> and a \<^verbatim>\<open>moov\<close> box of 8 bytes each, and an audio buffer with a \<^verbatim>\<open>moov\<close> box
  holding a \<^verbatim>\<open>trak\<close> of 9 bytes, followed by a \<^verbatim>\<open>sidx\<close> box of 16 bytes whose
  reference identifier is the last byte.
\<close>

definition smallVideo :: bytes where
  "smallVideo = [0, 0, 0, 8, 0x66, 0x74, 0x79, 0x70, 0, 0, 0, 8, 0x6D, 0x6F, 0x6F, 0x76]"

definition smallAudio :: "byte \<Rightarrow> bytes" where
  "smallAudio referenceId =
     [0, 0, 0, 17, 0x6D, 0x6F, 0x6F, 0x76, 0, 0, 0, 9, 0x74, 0x72, 0x61, 0x6B, 0,
      0, 0, 0, 16, 0x73, 0x69, 0x64, 0x78, 0, 0, 0, 0, 0, 0, 0, referenceId]"

text \<open>A run of bytes \<open>x\<close> lies in \<open>y\<close> at the position \<open>k\<close>.\<close>

definition occursAt :: "nat \<Rightarrow> bytes \<Rightarrow> bytes \<Rightarrow> bool" where
  "occursAt k x y = (take (length x) (drop k y) = x \<and> k + length x \<le> length y)"



text \<open>A video track with two samples (3 bytes of data) and an audio track with one sample
  (2 bytes of data).\<close>

definition sampleVideoTrack :: track where
  "sampleVideoTrack =
     \<lparr>track_id = 1, track_type = ''video'', track_timescale = 1000, track_duration = 2,
      track_width = 16, track_height = 16,
      track_samples =
        [\<lparr>sample_data = Some [1, 2], sample_duration = 1, sample_dts = 0, sample_cts = 0,
          is_sync = True\<rparr>,
         \<lparr>sample_data = Some [3], sample_duration = 1, sample_dts = 1, sample_cts = 1,
          is_sync = False\<rparr>],
      rawStsd = None, stsdEntry = None\<rparr>"




text \<open>
  Reading a \<^verbatim>\<open>stts\<close> box back: the box at \<open>off\<close> in \<open>view\<close> has its entry count at byte 12
  and the entries, a count and a duration of 32 bits each, from byte 16 on.
\<close>

definition readSttsEntries :: "bytes \<Rightarrow> nat \<Rightarrow> (nat \<times> nat) list" where
  "readSttsEntries view off =
     map (\<lambda>i. (u32 view (off + 16 + 8 * i), u32 view (off + 20 + 8 * i)))
       [0..<u32 view (off + 12)]"

text \<open>
  The position of the \<^verbatim>\<open>stts\<close> box inside a \<^verbatim>\<open>trak\<close> box built by \<open>trakWith\<close>: as for
  \<^verbatim>\<open>stco\<close>, the boxes up to the header of \<^verbatim>\<open>stbl\<close> and then the \<^verbatim>\<open>stsd\<close> box.
\<close>

definition sttsPosition :: "bytes \<Rightarrow> track \<Rightarrow> nat" where
  "sttsPosition stsd track =
     8 + 92 + 8 + 32 + 45 + 8 + (if track_type track = ''video'' then 20 else 16) + 36 + 8
     + length stsd"

text \<open>
  The track identifier of a \<^verbatim>\<open>trak\<close> box, read where \<^verbatim>\<open>updateTrackIdInTrak\<close> writes
  it: in the first \<^verbatim>\<open>tkhd\<close> child, at offset 20 for version 0 and 28 otherwise.
\<close>

definition trackIdOfTrak :: "bytes \<Rightarrow> nat option" where
  "trackIdOfTrak trakData =
     (case scanFor trakData ''tkhd'' 8 of
        None \<Rightarrow> None
      | Some (offset, sz) \<Rightarrow>
          let version0 = (offset + 8 < length trakData \<and> trakData ! (offset + 8) = 0);
              trackIdOffset = offset + (if version0 then 20 else 28)
          in if trackIdOffset + 4 \<le> length trakData then Some (u32 trakData trackIdOffset)
             else None)"

text \<open>
  The number of leading bytes of the video movie box that \<^verbatim>\<open>createMergedMoov\<close> keeps in
  front of the audio \<^verbatim>\<open>trak\<close>: up to \<^verbatim>\<open>mvex\<close> when the video has one and an audio
  \<^verbatim>\<open>trex\<close> is given, the whole box otherwise.
\<close>

definition keptLength :: "bytes \<Rightarrow> bytes option \<Rightarrow> nat" where
  "keptLength videoMoovData audioTrexBox =
     (case (findSubBoxWithOffset videoMoovData ''mvex'', audioTrexBox) of
        (Some videoMvex, Some trex) \<Rightarrow> sub_offset videoMvex
      | _ \<Rightarrow> length videoMoovData)"

text \<open>Two streams with one track each: the video stream has the track identifier 5,
  the audio stream the track identifier 9.\<close>

definition sampleVideoStream :: bytes where
  "sampleVideoStream = makeBox ''ftyp'' (charCodes ''isom'') @ sampleMoov 5"

definition sampleAudioStream :: bytes where
  "sampleAudioStream = sampleMoov 9"

text \<open>
  An environment in which the library is loaded, the demuxer makes no callback, the
  engine's sort keeps the order, and the library builds no buffer.
\<close>

definition sampleEnv :: env where
  "sampleEnv =
     \<lparr>loaded = True, demux = (\<lambda>x d. []), sortTracks = (\<lambda>ts. ts), entryOf = (\<lambda>d i. None),
      remux = (\<lambda>v a. Buffer None)\<rparr>"

text \<open>Two track descriptions, a video track with the identifier 7 and an audio track
  with the identifier 3, as the demuxer reports them.\<close>

definition sampleVideoInfo :: track_info where
  "sampleVideoInfo =
     \<lparr>info_id = 7, info_type = ''video'', nb_samples = 1, info_timescale = 1000,
      info_duration = 1, video_width = None, video_height = None, info_track_width = 0,
      info_track_height = 0\<rparr>"

definition sampleAudioInfo :: track_info where
  "sampleAudioInfo =
     \<lparr>info_id = 3, info_type = ''audio'', nb_samples = 1, info_timescale = 1000,
      info_duration = 1, video_width = None, video_height = None, info_track_width = 0,
      info_track_height = 0\<rparr>"

text \<open>
  The callbacks of a run in which the demuxer reports the tracks once and then delivers
  batches of samples, each for a track; and the number of samples the batches hold for
  a track.
\<close>

definition deliveries :: "track_info list \<Rightarrow> (nat \<times> sample list) list \<Rightarrow> event list" where
  "deliveries info batches =
     OnReady info # map (\<lambda>(trackId, samples). OnSamples trackId samples) batches"

definition delivered :: "(nat \<times> sample list) list \<Rightarrow> nat \<Rightarrow> nat" where
  "delivered batches trackId =
     length (concat (map snd (filter (\<lambda>b. fst b = trackId) batches)))"

text \<open>A run in which a track declares 10 samples and the demuxer delivers 8 of them.\<close>

definition tenSampleTrack :: track_info where
  "tenSampleTrack = sampleVideoInfo\<lparr>nb_samples := 10\<rparr>"

definition eightSamples :: "(nat \<times> sample list) list" where
  "eightSamples = [(7, replicate 8 (sampleOfDuration 1))]"


section \<open>Properties of the box reader\<close>

lemma readBoxHeader_Some:
  "readBoxHeader view off = Inr (Some b) \<Longrightarrow> off + 8 \<le> length view \<and> box_offset b = off"
  by (auto simp: readBoxHeader_def Let_def split: if_splits sum.splits)

lemma readBoxHeader_None:
  "readBoxHeader view off = Inr None \<longleftrightarrow> length view < off + 8"
  by (auto simp: readBoxHeader_def Let_def getUint32_def getBigUint64_def split: if_splits sum.splits)

lemma parseBoxes_fuel_enough:
  "(length view - offset) div 8 + 1 \<le> fuel \<Longrightarrow>
     parseBoxes_fuel fuel view offset boxes = Some (parseBoxes_loop view offset boxes)"
proof (induction fuel arbitrary: offset boxes)
  case 0
  then show ?case by simp
next
  case (Suc fuel)
  show ?case
  proof (cases "offset < length view")
    case False
    then show ?thesis by (simp add: parseBoxes_loop.simps [of view offset])
  next
    case True
    show ?thesis
    proof (cases "readBoxHeader view offset")
      case (Inl e)
      with True show ?thesis by (simp add: parseBoxes_loop.simps [of view offset])
    next
      case (Inr r)
      show ?thesis
      proof (cases r)
        case None
        with Inr True show ?thesis by (simp add: parseBoxes_loop.simps [of view offset])
      next
        case (Some b)
        show ?thesis
        proof (cases "box_size b < 8")
          case True
          with Inr Some \<open>offset < length view\<close> show ?thesis
            by (simp add: parseBoxes_loop.simps [of view offset])
        next
          case False
          from Inr Some have le: "offset + 8 \<le> length view"
            using readBoxHeader_Some by blast
          have "(length view - (offset + box_size b)) div 8 + 1 \<le> fuel"
            using Suc.prems le False by simp
          then have "parseBoxes_fuel fuel view (offset + box_size b) (boxes @ [b])
                   = Some (parseBoxes_loop view (offset + box_size b) (boxes @ [b]))"
            by (rule Suc.IH)
          with Inr Some False True show ?thesis
            by (simp add: parseBoxes_loop.simps [of view offset])
        qed
      qed
    qed
  qed
qed

lemma parseBoxes_loop_consecutive:
  "parseBoxes_loop view offset acc = Inr boxes \<Longrightarrow>
     \<exists>new. boxes = acc @ new \<and> consecutive offset new"
proof (induction view offset acc rule: parseBoxes_loop.induct)
  case (1 view offset acc)
  show ?case
  proof (cases "offset < length view")
    case False
    with "1.prems" show ?thesis by (simp add: parseBoxes_loop.simps [of view offset])
  next
    case True
    show ?thesis
    proof (cases "readBoxHeader view offset")
      case (Inl e)
      with True "1.prems" show ?thesis by (simp add: parseBoxes_loop.simps [of view offset])
    next
      case (Inr r)
      show ?thesis
      proof (cases r)
        case None
        with Inr True "1.prems" show ?thesis
          by (simp add: parseBoxes_loop.simps [of view offset])
      next
        case (Some b)
        show ?thesis
        proof (cases "box_size b < 8")
          case True
          with Inr Some \<open>offset < length view\<close> "1.prems" show ?thesis
            by (simp add: parseBoxes_loop.simps [of view offset])
        next
          case False
          from Inr Some have off: "box_offset b = offset"
            using readBoxHeader_Some by blast
          from "1.prems" True Inr Some False
          have "parseBoxes_loop view (offset + box_size b) (acc @ [b]) = Inr boxes"
            by (simp add: parseBoxes_loop.simps [of view offset])
          with "1.IH" [OF True Inr Some False]
          obtain new where "boxes = (acc @ [b]) @ new" "consecutive (offset + box_size b) new"
            by blast
          with off False have "boxes = acc @ (b # new) \<and> consecutive offset (b # new)"
            by simp
          then show ?thesis by blast
        qed
      qed
    qed
  qed
qed

text \<open>
  C10.  \<^verbatim>\<open>parseBoxes\<close> leaves its loop on every buffer, after at most one iteration per 8
  bytes of the buffer and one more: run with that bound (or any larger one) the loop
  gives the result of \<^verbatim>\<open>parseBoxes\<close>, which is a list of headers or a RangeError.  The
  headers it returns each have a size of at least 8 and each starts where the one before
  it ends, so the offset grows by at least 8 per accepted box.  When fewer than 8 bytes
  remain the header is not found, and a header that is not found or has a size below 8
  ends the loop at once with the boxes gathered so far.
\<close>

theorem parseBoxes_terminates:
  "parseBoxes_fuel (length view div 8 + 1 + k) view 0 [] = Some (parseBoxes view)
   \<and> (parseBoxes view = Inr boxes \<longrightarrow> consecutive 0 boxes)
   \<and> (length view < offset + 8 \<longrightarrow> readBoxHeader view offset = Inr None)
   \<and> (readBoxHeader view offset = Inr None \<longrightarrow> parseBoxes_loop view offset acc = Inr acc)
   \<and> (readBoxHeader view offset = Inr (Some b) \<and> box_size b < 8
        \<longrightarrow> parseBoxes_loop view offset acc = Inr acc)"
proof (intro conjI impI)
  show "parseBoxes_fuel (length view div 8 + 1 + k) view 0 [] = Some (parseBoxes view)"
    unfolding parseBoxes_def by (rule parseBoxes_fuel_enough) simp
next
  assume "parseBoxes view = Inr boxes"
  then show "consecutive 0 boxes"
    unfolding parseBoxes_def using parseBoxes_loop_consecutive by fastforce
next
  assume "length view < offset + 8"
  then show "readBoxHeader view offset = Inr None"
    by (simp add: readBoxHeader_None)
next
  assume "readBoxHeader view offset = Inr None"
  then show "parseBoxes_loop view offset acc = Inr acc"
    by (simp add: parseBoxes_loop.simps [of view offset])
next
  assume "readBoxHeader view offset = Inr (Some b) \<and> box_size b < 8"
  then show "parseBoxes_loop view offset acc = Inr acc"
    by (simp add: parseBoxes_loop.simps [of view offset])
qed

theorem parseBoxes_terminates_witness:
  "parseBoxes truncatedBuffer =
     Inr [\<lparr>box_size = 8, box_type = ''ftyp'', headerSize = 8, box_offset = 0\<rparr>,
          \<lparr>box_size = 32, box_type = ''moov'', headerSize = 8, box_offset = 8\<rparr>]
   \<and> parseBoxes_fuel 3 truncatedBuffer 0 [] = Some (parseBoxes truncatedBuffer)
   \<and> consecutive 0 [\<lparr>box_size = 8, box_type = ''ftyp'', headerSize = 8, box_offset = 0\<rparr>,
          \<lparr>box_size = 32, box_type = ''moov'', headerSize = 8, box_offset = 8\<rparr>]
   \<and> length truncatedBuffer < 16 + 8
   \<and> readBoxHeader truncatedBuffer 16 = Inr None
   \<and> parseBoxes_loop truncatedBuffer 16 [] = Inr []
   \<and> readBoxHeader [0, 0, 0, 7, 0x66, 0x74, 0x79, 0x70] 0
       = Inr (Some \<lparr>box_size = 7, box_type = ''ftyp'', headerSize = 8, box_offset = 0\<rparr>)
   \<and> parseBoxes_loop [0, 0, 0, 7, 0x66, 0x74, 0x79, 0x70] 0 [] = Inr []"
proof -
  let ?boxes = "[\<lparr>box_size = 8, box_type = ''ftyp'', headerSize = 8, box_offset = 0\<rparr>,
          \<lparr>box_size = 32, box_type = ''moov'', headerSize = 8, box_offset = 8\<rparr>]"
  let ?small = "[0, 0, 0, 7, 0x66, 0x74, 0x79, 0x70] :: bytes"
  let ?b = "\<lparr>box_size = 7, box_type = ''ftyp'', headerSize = 8, box_offset = 0\<rparr>"
  have p: "parseBoxes truncatedBuffer = Inr ?boxes" by code_simp
  have l: "length truncatedBuffer = 16" by (simp add: truncatedBuffer_def)
  have r: "readBoxHeader ?small 0 = Inr (Some ?b)" by code_simp
  have s: "box_size ?b < 8" by simp
  from parseBoxes_terminates [of truncatedBuffer 0 ?boxes 16 "[]"] p l
  have a: "parseBoxes_fuel 3 truncatedBuffer 0 [] = Some (parseBoxes truncatedBuffer)"
    and b: "consecutive 0 ?boxes"
    and c: "readBoxHeader truncatedBuffer 16 = Inr None"
    and d: "parseBoxes_loop truncatedBuffer 16 [] = Inr []"
    by simp_all
  from parseBoxes_terminates [of ?small 0 "[]" 0 "[]" ?b] r s
  have e: "parseBoxes_loop ?small 0 [] = Inr []" by blast
  from p a b c d e r l show ?thesis by simp
qed

text \<open>
  C5.  On a buffer truncated in the middle of a box, \<^verbatim>\<open>parseBoxes\<close> does not stop
  before the truncated box: the loop never compares \<^verbatim>\<open>offset + box.size\<close> with the
  length of the buffer, so the header of the truncated \<^verbatim>\<open>moov\<close> box is returned with the
  boxes before it.  And on a truncated box whose size field is 1 the unguarded read of
  the 64-bit size throws.
\<close>

theorem parseBoxes_truncated:
  "parseBoxes truncatedBuffer =
     Inr [\<lparr>box_size = 8, box_type = ''ftyp'', headerSize = 8, box_offset = 0\<rparr>,
          \<lparr>box_size = 32, box_type = ''moov'', headerSize = 8, box_offset = 8\<rparr>]
   \<and> length truncatedBuffer = 16
   \<and> parseBoxes truncatedLargeSize = Inl RangeError"
proof -
  have "parseBoxes truncatedBuffer =
     Inr [\<lparr>box_size = 8, box_type = ''ftyp'', headerSize = 8, box_offset = 0\<rparr>,
          \<lparr>box_size = 32, box_type = ''moov'', headerSize = 8, box_offset = 8\<rparr>]"
    by code_simp
  moreover have "length truncatedBuffer = 16" by (simp add: truncatedBuffer_def)
  moreover have "parseBoxes truncatedLargeSize = Inl RangeError" by code_simp
  ultimately show ?thesis by simp
qed

lemma unat_byte: "unat (word_of_nat x :: byte) = x mod 256"
  by (simp add: unat_of_nat)

lemma be_value:
  "(v div 16777216 mod 256) * 16777216 + (v div 65536 mod 256) * 65536
     + (v div 256 mod 256) * 256 + v mod 256 = (v mod 4294967296 :: nat)"
proof -
  have a: "v mod 4294967296 = 256 * (v div 256 mod 16777216) + v mod 256"
    using mod_mult2_eq [of v 256 16777216] by simp
  have b: "v div 256 mod 16777216 = 256 * (v div 256 div 256 mod 65536) + v div 256 mod 256"
    using mod_mult2_eq [of "v div 256" 256 65536] by simp
  have c: "v div 65536 mod 65536 = 256 * (v div 16777216 mod 256) + v div 65536 mod 256"
    using mod_mult2_eq [of "v div 65536" 256 256] by (simp add: div_mult2_eq [symmetric])
  have d: "v div 256 div 256 = v div 65536"
    by (simp add: div_mult2_eq [symmetric])
  show ?thesis unfolding a b c d by simp
qed

lemma length_be32 [simp]: "length (be32 v) = 4"
  by (simp add: be32_def)

lemma u32_be32: "u32 (xs @ be32 v @ ys) (length xs) = v mod 4294967296"
  by (simp add: u32_def be32_def nth_append unat_byte be_value)

lemma length_putUint32 [simp]: "length (putUint32 view off v) = length view"
  by (simp add: putUint32_def)

lemma length_putUint16 [simp]: "length (putUint16 view off v) = length view"
  by (simp add: putUint16_def)

lemma u32_putUint32:
  "off + 4 \<le> length view \<Longrightarrow> u32 (putUint32 view off v) off = v mod 4294967296"
  by (simp add: u32_def putUint32_def unat_byte be_value)

lemma drop_putUint32: "off + 4 \<le> n \<Longrightarrow> drop n (putUint32 view off v) = drop n view"
  by (simp add: putUint32_def)

lemma take_putUint32: "n \<le> off \<Longrightarrow> take n (putUint32 view off v) = take n view"
  by (simp add: putUint32_def)

lemma expandRuns_append:
  "expandRuns (xs @ ys) = expandRuns xs @ expandRuns ys"
  by (simp add: expandRuns_def)

lemma expandRuns_runLengths:
  "expandRuns (runLengths xs current count entries)
     = expandRuns entries @ replicate count current @ xs"
proof (induction xs arbitrary: current count entries)
  case Nil
  then show ?case by (simp add: expandRuns_def)
next
  case (Cons x xs)
  then show ?case
    by (simp add: expandRuns_append replicate_append_same) (simp add: expandRuns_def)
qed

lemma sttsEntries_durations:
  "sttsEntries samples = sttsEntries samples' " if "map sample_duration samples = map sample_duration samples'"
  using that by (cases samples; cases samples') (auto simp: sttsEntries_def)

lemma length_syncSamples:
  "length (syncSamples samples) = length (filter is_sync samples)"
proof -
  have "filter is_sync (map (nth samples) [0..<length samples])
          = map (nth samples) (filter (is_sync \<circ> nth samples) [0..<length samples])"
    by (rule filter_map)
  then have "length (filter is_sync samples)
          = length (filter (is_sync \<circ> nth samples) [0..<length samples])"
    by (simp add: map_nth)
  then show ?thesis by (simp add: syncSamples_def comp_def)
qed

lemma all_sync: "list_all is_sync samples \<Longrightarrow> length (syncSamples samples) = length samples"
  by (simp add: length_syncSamples list_all_iff)

lemma none_sync: "\<not> list_ex is_sync samples \<Longrightarrow> length (syncSamples samples) = 0"
  by (simp add: length_syncSamples list_ex_iff)

lemma some_sync:
  "0 < length (syncSamples samples) \<Longrightarrow> list_ex is_sync samples"
  by (auto simp: length_syncSamples list_ex_iff filter_empty_conv)

lemma not_all_sync:
  assumes "length (syncSamples samples) < length samples"
  shows "\<not> list_all is_sync samples"
proof
  assume "list_all is_sync samples"
  then have "filter is_sync samples = samples" by (simp add: list_all_iff)
  with assms show False by (simp add: length_syncSamples)
qed

lemma syncSamples_le: "length (syncSamples samples) \<le> length samples"
  by (simp add: length_syncSamples)

text \<open>
  C9.  A track whose samples are all sync samples, and a track with no sync sample, gets
  no \<^verbatim>\<open>stss\<close> box, from \<^verbatim>\<open>buildTrak\<close> and from \<^verbatim>\<open>buildStss\<close> alike; where a box
  is built, some sample is a sync sample and some sample is not.  Without the box the
  sample table holds \<^verbatim>\<open>stsd\<close>, \<^verbatim>\<open>stts\<close>, \<^verbatim>\<open>stsc\<close>, \<^verbatim>\<open>stsz\<close>, \<^verbatim>\<open>stco\<close> and the
  optional \<^verbatim>\<open>ctts\<close> only.
\<close>

theorem stss_only_for_mixed_tracks:
  "(list_all is_sync (track_samples track) \<longrightarrow>
      stssOfTrak track = None \<and> buildStss (track_samples track) = None)
   \<and> (\<not> list_ex is_sync (track_samples track) \<longrightarrow>
      stssOfTrak track = None \<and> buildStss (track_samples track) = None)
   \<and> (stssOfTrak track \<noteq> None \<or> buildStss (track_samples track) \<noteq> None \<longrightarrow>
      list_ex is_sync (track_samples track) \<and> \<not> list_all is_sync (track_samples track))
   \<and> (stssOfTrak track = None \<longrightarrow>
      stblParts stsd track dataOffset =
        [stsd, buildStts (track_samples track), buildStsc (track_samples track),
         buildStsz (track_samples track), buildStco dataOffset]
        @ (case buildCtts (track_samples track) of Some ctts \<Rightarrow> [ctts] | None \<Rightarrow> []))"
proof (intro conjI impI)
  assume "list_all is_sync (track_samples track)"
  then show "stssOfTrak track = None" "buildStss (track_samples track) = None"
    by (simp_all add: stssOfTrak_def buildStss_def all_sync)
next
  assume "\<not> list_ex is_sync (track_samples track)"
  then show "stssOfTrak track = None" "buildStss (track_samples track) = None"
    by (simp_all add: stssOfTrak_def buildStss_def none_sync)
next
  assume a: "stssOfTrak track \<noteq> None \<or> buildStss (track_samples track) \<noteq> None"
  have le: "length (syncSamples (track_samples track)) \<le> length (track_samples track)"
    by (rule syncSamples_le)
  from a le have "0 < length (syncSamples (track_samples track))
      \<and> length (syncSamples (track_samples track)) < length (track_samples track)"
    by (auto simp: stssOfTrak_def buildStss_def split: if_splits)
  then show "list_ex is_sync (track_samples track)" "\<not> list_all is_sync (track_samples track)"
    using some_sync not_all_sync by blast+
next
  assume "stssOfTrak track = None"
  then show "stblParts stsd track dataOffset =
        [stsd, buildStts (track_samples track), buildStsc (track_samples track),
         buildStsz (track_samples track), buildStco dataOffset]
        @ (case buildCtts (track_samples track) of Some ctts \<Rightarrow> [ctts] | None \<Rightarrow> [])"
    by (simp add: stblParts_def)
qed

theorem stss_only_for_mixed_tracks_witness:
  "list_all is_sync (track_samples (videoTrackOf [sampleOfSync True, sampleOfSync True]))
   \<and> stssOfTrak (videoTrackOf [sampleOfSync True, sampleOfSync True]) = None
   \<and> buildStss [sampleOfSync True, sampleOfSync True] = None
   \<and> \<not> list_ex is_sync (track_samples (videoTrackOf [sampleOfSync False, sampleOfSync False]))
   \<and> stssOfTrak (videoTrackOf [sampleOfSync False, sampleOfSync False]) = None
   \<and> buildStss [sampleOfSync False, sampleOfSync False] = None
   \<and> stssOfTrak (videoTrackOf [sampleOfSync True, sampleOfSync False]) = Some (stssBox [1])
   \<and> list_ex is_sync (track_samples (videoTrackOf [sampleOfSync True, sampleOfSync False]))
   \<and> \<not> list_all is_sync (track_samples (videoTrackOf [sampleOfSync True, sampleOfSync False]))"
proof -
  let ?all = "videoTrackOf [sampleOfSync True, sampleOfSync True]"
  let ?none = "videoTrackOf [sampleOfSync False, sampleOfSync False]"
  let ?mixed = "videoTrackOf [sampleOfSync True, sampleOfSync False]"
  have a: "list_all is_sync (track_samples ?all)"
    by (simp add: videoTrackOf_def sampleOfSync_def)
  have n: "\<not> list_ex is_sync (track_samples ?none)"
    by (simp add: videoTrackOf_def sampleOfSync_def)
  have m: "stssOfTrak ?mixed = Some (stssBox [1])"
    by code_simp
  have sa: "track_samples ?all = [sampleOfSync True, sampleOfSync True]"
    and sn: "track_samples ?none = [sampleOfSync False, sampleOfSync False]"
    by (simp_all add: videoTrackOf_def)
  from stss_only_for_mixed_tracks [of ?all] a
  have ra: "stssOfTrak ?all = None \<and> buildStss (track_samples ?all) = None" by blast
  from stss_only_for_mixed_tracks [of ?none] n
  have rn: "stssOfTrak ?none = None \<and> buildStss (track_samples ?none) = None" by blast
  from stss_only_for_mixed_tracks [of ?mixed] m
  have rm: "list_ex is_sync (track_samples ?mixed) \<and> \<not> list_all is_sync (track_samples ?mixed)"
    by simp
  from a n m ra rn rm show ?thesis unfolding sa sn by blast
qed

declare scanFor.simps [simp del]

lemma length_slice: "b \<le> length data \<Longrightarrow> length (sliceBytes data a b) = b - a"
  by (simp add: sliceBytes_def)

lemma scanFor_Some:
  "scanFor data t start = Some (off, sz) \<Longrightarrow>
     start \<le> off \<and> off + 8 < length data \<and> 8 \<le> sz \<and> off + sz \<le> length data
     \<and> typeAt data off = t \<and> sz = u32 data off"
proof (induction data t start rule: scanFor.induct)
  case (1 data targetType offset)
  show ?case
  proof (cases "offset + 8 < length data \<and> \<not> (u32 data offset < 8 \<or> offset + u32 data offset > length data)")
    case False
    with "1.prems" show ?thesis
      by (auto simp: scanFor.simps [of data targetType offset] split: if_splits)
  next
    case True
    show ?thesis
    proof (cases "typeAt data offset = targetType")
      case t: True
      with True "1.prems" show ?thesis
        by (auto simp: scanFor.simps [of data targetType offset])
    next
      case f: False
      with True "1.prems"
      have "scanFor data targetType (offset + u32 data offset) = Some (off, sz)"
        by (auto simp: scanFor.simps [of data targetType offset])
      with "1.IH" True f show ?thesis by auto
    qed
  qed
qed

lemma u32_agree:
  "\<forall>i. o1 \<le> i \<and> i < o1 + 4 \<longrightarrow> a ! i = b ! i \<Longrightarrow> u32 a o1 = u32 b o1"
  by (simp add: u32_def)

lemma typeAt_nth:
  "off + 8 \<le> length data \<Longrightarrow>
     typeAt data off = fromCharCode [data ! (off + 4), data ! (off + 5), data ! (off + 6), data ! (off + 7)]"
proof -
  assume a: "off + 8 \<le> length data"
  have "take 4 (drop (off + 4) data) = map (\<lambda>i. data ! (off + 4 + i)) [0..<4]"
    using a by (auto simp: list_eq_iff_nth_eq)
  also have "\<dots> = [data ! (off + 4), data ! (off + 5), data ! (off + 6), data ! (off + 7)]"
    by (simp add: upt_rec numeral_eq_Suc add.commute)
  finally show ?thesis by (simp add: typeAt_def)
qed

lemma typeAt_agree:
  "off + 8 \<le> length a \<Longrightarrow> off + 8 \<le> length b \<Longrightarrow>
   \<forall>i. off + 4 \<le> i \<and> i < off + 8 \<longrightarrow> a ! i = b ! i \<Longrightarrow> typeAt a off = typeAt b off"
  by (simp add: typeAt_nth)

lemma scanFor_agree:
  "scanFor data t start = Some (off, sz) \<Longrightarrow> off < length data' \<Longrightarrow>
   \<forall>i. start \<le> i \<and> i < off \<longrightarrow> data' ! i = data ! i \<Longrightarrow>
   scanFor data' t start = scanFor data' t off"
proof (induction data t start rule: scanFor.induct)
  case (1 data targetType offset)
  from scanFor_Some [OF "1.prems"(1)] have le: "offset \<le> off" by simp
  show ?case
  proof (cases "offset = off")
    case True
    then show ?thesis by simp
  next
    case False
    from "1.prems"(1) have c: "offset + 8 < length data" "\<not> u32 data offset < 8"
        "\<not> offset + u32 data offset > length data"
      by (auto simp: scanFor.simps [of data targetType offset] split: if_splits)
    have nt: "typeAt data offset \<noteq> targetType"
    proof
      assume "typeAt data offset = targetType"
      with c "1.prems"(1) have "off = offset"
        by (auto simp: scanFor.simps [of data targetType offset])
      with False show False by simp
    qed
    with c "1.prems"(1)
    have next_: "scanFor data targetType (offset + u32 data offset) = Some (off, sz)"
      by (auto simp: scanFor.simps [of data targetType offset])
    from scanFor_Some [OF next_] have le2: "offset + u32 data offset \<le> off" by simp
    with c have h8: "offset + 8 \<le> off" by simp
    have u: "u32 data' offset = u32 data offset"
      using "1.prems"(3) h8 by (intro u32_agree) auto
    have ty: "typeAt data' offset = typeAt data offset"
      using "1.prems"(2,3) h8 c by (intro typeAt_agree) auto
    have ih: "scanFor data' targetType (offset + u32 data offset) = scanFor data' targetType off"
      using "1.IH" [OF _ _ nt next_ "1.prems"(2)] c "1.prems"(3) by auto
    have "scanFor data' targetType offset = scanFor data' targetType (offset + u32 data offset)"
      using c nt u ty "1.prems"(2) h8 le2
      by (subst scanFor.simps [of data' targetType offset]) auto
    with ih show ?thesis by simp
  qed
qed

lemma typeAt_putUint32_0: "typeAt (putUint32 view 0 v) off = typeAt view off"
  by (simp add: typeAt_def drop_putUint32)

lemma typeAt_append1: "off + 8 \<le> length a \<Longrightarrow> typeAt (a @ b) off = typeAt a off"
  by (simp add: typeAt_def)

lemma typeAt_slice:
  "8 \<le> sz \<Longrightarrow> off + sz \<le> length data \<Longrightarrow> typeAt (sliceBytes data off (off + sz)) 0 = typeAt data off"
  by (simp add: typeAt_def sliceBytes_def drop_take add.commute [of 4 off])

lemma u32_small: "n < 4294967296 \<Longrightarrow> 4 \<le> length view \<Longrightarrow> u32 (putUint32 view 0 n) 0 = n"
  using u32_putUint32 [of 0 view n] by simp

lemma updateTrackIdInTrak_length:
  "updateTrackIdInTrak trak n = Inr patched \<Longrightarrow> length patched = length trak"
  by (auto simp: updateTrackIdInTrak_def setUint32_def Let_def split: option.splits if_splits)

lemma updateTrackIdInTrak_header:
  "updateTrackIdInTrak trak n = Inr patched \<Longrightarrow> take 16 patched = take 16 trak"
proof -
  assume a: "updateTrackIdInTrak trak n = Inr patched"
  show ?thesis
  proof (cases "scanFor trak ''tkhd'' 8")
    case None
    with a show ?thesis by (simp add: updateTrackIdInTrak_def)
  next
    case (Some p)
    obtain off sz where p: "p = (off, sz)" by (cases p)
    from scanFor_Some [OF Some [unfolded p]] have "8 \<le> off" by simp
    with a Some p show ?thesis
      by (auto simp: updateTrackIdInTrak_def setUint32_def Let_def take_putUint32 split: if_splits)
  qed
qed

lemma updateTrackIdInTrex_length [simp]:
  "length (updateTrackIdInTrex trex n) = length trex"
  by (simp add: updateTrackIdInTrex_def)

lemma createMergedMoov_parts:
  assumes found: "findSubBoxWithOffset videoMoovData ''mvex'' = Some videoMvex"
    and merged: "createMergedMoov videoMoovData audioTrakBox (Some audioTrexBox) = Inr merged"
    and fits: "length merged < 4294967296"
  shows "\<exists>patchedTrak newMvex.
           updateTrackIdInTrak audioTrakBox 2 = Inr patchedTrak
         \<and> newMvex = putUint32 (sub_data videoMvex @ updateTrackIdInTrex audioTrexBox 2) 0
                        (sub_size videoMvex + length audioTrexBox)
         \<and> merged = putUint32 (sliceBytes videoMoovData 0 (sub_offset videoMvex) @ patchedTrak @ newMvex)
                        0 (length merged)
         \<and> length merged = sub_offset videoMvex + length audioTrakBox + sub_size videoMvex
                            + length audioTrexBox
         \<and> u32 merged 0 = length merged
         \<and> take (length audioTrakBox) (drop (sub_offset videoMvex) merged) = patchedTrak
         \<and> drop (sub_offset videoMvex + length audioTrakBox) merged = newMvex
         \<and> typeAt newMvex 0 = ''mvex''
         \<and> u32 newMvex 0 = length newMvex"
proof -
  from found obtain off sz where
    scan: "scanFor videoMoovData ''mvex'' 8 = Some (off, sz)"
    and vm: "videoMvex = \<lparr>sub_offset = off, sub_size = sz, sub_data = sliceBytes videoMoovData off (off + sz)\<rparr>"
    by (auto simp: findSubBoxWithOffset_def split: option.splits)
  have vm_off: "sub_offset videoMvex = off" and vm_sz: "sub_size videoMvex = sz"
    by (simp_all add: vm)
  from scanFor_Some [OF scan] have
    s: "8 \<le> off" "off + 8 < length videoMoovData" "8 \<le> sz" "off + sz \<le> length videoMoovData"
       "typeAt videoMoovData off = ''mvex''"
    by simp_all
  obtain patchedTrak where pt: "updateTrackIdInTrak audioTrakBox 2 = Inr patchedTrak"
    using merged by (auto simp: createMergedMoov_def split: sum.splits)
  have lpt: "length patchedTrak = length audioTrakBox"
    using pt by (rule updateTrackIdInTrak_length)
  define oldMvex where "oldMvex = sliceBytes videoMoovData off (off + sz)"
  define before where "before = sliceBytes videoMoovData 0 off"
  define newMvex where
    "newMvex = putUint32 (oldMvex @ updateTrackIdInTrex audioTrexBox 2) 0 (sz + length audioTrexBox)"
  have lo: "length oldMvex = sz" using s by (simp add: oldMvex_def sliceBytes_def)
  have lb: "length before = off" using s by (simp add: before_def sliceBytes_def)
  have ln: "length newMvex = sz + length audioTrexBox" by (simp add: newMvex_def lo)
  have m: "merged = putUint32 (before @ patchedTrak @ newMvex) 0
                      (length before + length patchedTrak + length newMvex)"
    using merged found pt s lo
    by (auto simp: createMergedMoov_def vm Let_def setUint32_def oldMvex_def [symmetric]
        before_def [symmetric] newMvex_def [symmetric] ln)
  have lm: "length merged = off + length audioTrakBox + sz + length audioTrexBox"
    by (simp add: m lb lpt ln)
  have size_field: "u32 merged 0 = length merged"
  proof -
    have "u32 merged 0 = (length before + length patchedTrak + length newMvex) mod 4294967296"
      unfolding m using s lb by (intro u32_putUint32) simp
    also have "\<dots> = length merged" using fits by (simp add: lm lb lpt ln)
    finally show ?thesis .
  qed
  have d1: "drop off merged = patchedTrak @ newMvex"
    unfolding m using s lb by (simp add: drop_putUint32)
  have trak_at: "take (length audioTrakBox) (drop off merged) = patchedTrak"
    by (simp add: d1 lpt)
  have mvex_at: "drop (off + length audioTrakBox) merged = newMvex"
  proof -
    have "drop (off + length audioTrakBox) merged = drop (length audioTrakBox) (drop off merged)"
      by (simp add: add.commute)
    then show ?thesis by (simp add: d1 lpt)
  qed
  have ty: "typeAt newMvex 0 = ''mvex''"
  proof -
    have "typeAt newMvex 0 = typeAt (oldMvex @ updateTrackIdInTrex audioTrexBox 2) 0"
      by (simp add: newMvex_def typeAt_putUint32_0)
    also have "\<dots> = typeAt oldMvex 0" using s lo by (simp add: typeAt_append1)
    also have "\<dots> = ''mvex''" using s by (simp add: oldMvex_def typeAt_slice)
    finally show ?thesis .
  qed
  have sz_field: "u32 newMvex 0 = length newMvex"
  proof -
    have "u32 newMvex 0 = (sz + length audioTrexBox) mod 4294967296"
      unfolding newMvex_def using s lo by (intro u32_putUint32) simp
    also have "\<dots> = length newMvex" using fits by (simp add: lm ln)
    finally show ?thesis .
  qed
  have eq: "length before + length patchedTrak + length newMvex = length merged"
    by (simp add: lm lb lpt ln)
  have "merged = putUint32 (before @ patchedTrak @ newMvex) 0 (length merged)"
    using m unfolding eq .
  then have "merged = putUint32 (sliceBytes videoMoovData 0 (sub_offset videoMvex) @ patchedTrak @ newMvex)
                        0 (length merged)"
    unfolding before_def vm_off .
  moreover have "newMvex = putUint32 (sub_data videoMvex @ updateTrackIdInTrex audioTrexBox 2) 0
                        (sub_size videoMvex + length audioTrexBox)"
    by (simp add: newMvex_def oldMvex_def vm)
  moreover note pt lm [folded vm_off vm_sz] size_field trak_at [folded vm_off]
    mvex_at [folded vm_off] ty sz_field
  ultimately show ?thesis by blast
qed


lemma u32_drop: "n + k + 4 \<le> length xs \<Longrightarrow> u32 (drop n xs) k = u32 xs (n + k)"
  by (simp add: u32_def add.assoc)

lemma u32_take: "k + 4 \<le> n \<Longrightarrow> u32 (take n xs) k = u32 xs k"
  by (simp add: u32_def)

lemma typeAt_drop: "typeAt (drop n xs) k = typeAt xs (n + k)"
  by (simp add: typeAt_def ac_simps)

lemma typeAt_take: "k + 8 \<le> n \<Longrightarrow> typeAt (take n xs) k = typeAt xs k"
  by (simp add: typeAt_def drop_take)

lemma nth_putUint32: "off + 4 \<le> i \<Longrightarrow> putUint32 view off v ! i = view ! i"
  by (simp add: putUint32_def)

lemma merged_scan:
  assumes scan: "scanFor videoMoovData ''mvex'' 8 = Some (off, sz)"
    and lm: "length merged = off + length trak + sz + length trex"
    and m: "merged = putUint32 (sliceBytes videoMoovData 0 off @ rest) 0 n"
    and trak_at: "take (length trak) (drop off merged) = patchedTrak"
    and hdr: "take 16 patchedTrak = take 16 trak"
    and mvex_at: "drop (off + length trak) merged = newMvex"
    and ty: "typeAt newMvex 0 = ''mvex''"
    and szf: "u32 newMvex 0 = length newMvex"
    and wf: "u32 trak 0 = length trak" "8 \<le> length trak" "typeAt trak 0 \<noteq> ''mvex''"
            "0 < length trex"
  shows "scanFor merged ''mvex'' 8 = Some (off + length trak, sz + length trex)"
proof -
  from scanFor_Some [OF scan] have
    s: "8 \<le> off" "off + 8 < length videoMoovData" "8 \<le> sz" "off + sz \<le> length videoMoovData"
    by simp_all
  have agree: "\<forall>i. 8 \<le> i \<and> i < off \<longrightarrow> merged ! i = videoMoovData ! i"
    using s by (auto simp: m nth_putUint32 nth_append sliceBytes_def)
  have step1: "scanFor merged ''mvex'' 8 = scanFor merged ''mvex'' off"
    using scan _ agree by (rule scanFor_agree) (use s in \<open>simp add: lm\<close>)
  have lpt: "length patchedTrak = length trak"
    using trak_at [symmetric] lm by simp
  have u_off: "u32 merged off = length trak"
  proof -
    have "u32 merged off = u32 (drop off merged) 0"
      using lm wf by (simp add: u32_drop)
    also have "\<dots> = u32 (take (length trak) (drop off merged)) 0"
      using wf by (simp add: u32_take)
    also have "\<dots> = u32 (take 16 patchedTrak) 0"
      by (simp add: trak_at u32_take)
    also have "\<dots> = u32 trak 0"
      by (simp add: hdr u32_take)
    finally show ?thesis by (simp add: wf)
  qed
  have t_off: "typeAt merged off \<noteq> ''mvex''"
  proof -
    have "typeAt merged off = typeAt (drop off merged) 0"
      by (simp add: typeAt_drop)
    also have "\<dots> = typeAt (take (length trak) (drop off merged)) 0"
      using wf by (simp add: typeAt_take)
    also have "\<dots> = typeAt (take 16 patchedTrak) 0"
      by (simp add: trak_at typeAt_take)
    also have "\<dots> = typeAt trak 0"
      by (simp add: hdr typeAt_take)
    finally show ?thesis by (simp add: wf)
  qed
  have step2: "scanFor merged ''mvex'' off = scanFor merged ''mvex'' (off + length trak)"
    using u_off t_off lm wf s by (subst scanFor.simps [of merged "''mvex''" off]) simp
  have ln: "length newMvex = sz + length trex"
    using mvex_at [symmetric] lm by simp
  have u_mv: "u32 merged (off + length trak) = sz + length trex"
  proof -
    have "u32 merged (off + length trak) = u32 (drop (off + length trak) merged) 0"
      using lm s by (simp add: u32_drop)
    then show ?thesis by (simp add: mvex_at szf ln)
  qed
  have t_mv: "typeAt merged (off + length trak) = ''mvex''"
  proof -
    have "typeAt merged (off + length trak) = typeAt (drop (off + length trak) merged) 0"
      by (simp add: typeAt_drop)
    then show ?thesis by (simp add: mvex_at ty)
  qed
  have gt: "8 < sz + length trex"
    using s(3) wf(4) by linarith
  have step3: "scanFor merged ''mvex'' (off + length trak) = Some (off + length trak, sz + length trex)"
    using u_mv t_mv lm gt by (subst scanFor.simps [of merged "''mvex''" "off + length trak"]) simp
  from step1 step2 step3 show ?thesis by simp
qed

text \<open>
  C6.  When the video movie box has an \<^verbatim>\<open>mvex\<close> child and an audio \<^verbatim>\<open>trex\<close> is given,
  and the merged box is shorter than \<open>2 ^ 32\<close> bytes (so that its length fits the size
  field), the merged movie box is the bytes before \<^verbatim>\<open>mvex\<close>, then the patched audio
  \<^verbatim>\<open>trak\<close>, then the new \<^verbatim>\<open>mvex\<close> (the old one followed by the patched \<^verbatim>\<open>trex\<close>, with its
  size field rewritten), with the first four bytes overwritten by the total length.  So
  the size field of the merged box is its length, the audio \<^verbatim>\<open>trak\<close> sits where \<^verbatim>\<open>mvex\<close>
  was, and the new \<^verbatim>\<open>mvex\<close> follows it and runs to the end of the box.  When the audio
  \<^verbatim>\<open>trak\<close> is a box (its size field is its length) of another type than \<^verbatim>\<open>mvex\<close> and the
  \<^verbatim>\<open>trex\<close> is not empty, the scan of the merged box for \<^verbatim>\<open>mvex\<close> finds the new \<^verbatim>\<open>mvex\<close>
  after the audio \<^verbatim>\<open>trak\<close>, ending where the merged box ends.
\<close>

theorem createMergedMoov_layout:
  assumes found: "findSubBoxWithOffset videoMoovData ''mvex'' = Some videoMvex"
    and merged: "createMergedMoov videoMoovData audioTrakBox (Some audioTrexBox) = Inr merged"
    and fits: "length merged < 4294967296"
  shows "\<exists>patchedTrak newMvex.
           updateTrackIdInTrak audioTrakBox 2 = Inr patchedTrak
         \<and> newMvex = putUint32 (sub_data videoMvex @ updateTrackIdInTrex audioTrexBox 2) 0
                        (sub_size videoMvex + length audioTrexBox)
         \<and> merged = putUint32
                      (sliceBytes videoMoovData 0 (sub_offset videoMvex) @ patchedTrak @ newMvex)
                      0 (length merged)
         \<and> length merged = sub_offset videoMvex + length audioTrakBox + sub_size videoMvex
                            + length audioTrexBox
         \<and> u32 merged 0 = length merged
         \<and> take (length audioTrakBox) (drop (sub_offset videoMvex) merged) = patchedTrak
         \<and> drop (sub_offset videoMvex + length audioTrakBox) merged = newMvex
         \<and> typeAt newMvex 0 = ''mvex''
         \<and> u32 newMvex 0 = length newMvex
         \<and> (u32 audioTrakBox 0 = length audioTrakBox \<and> 8 \<le> length audioTrakBox
              \<and> typeAt audioTrakBox 0 \<noteq> ''mvex'' \<and> 0 < length audioTrexBox \<longrightarrow>
                findSubBoxWithOffset merged ''mvex''
                  = Some \<lparr>sub_offset = sub_offset videoMvex + length audioTrakBox,
                          sub_size = length newMvex, sub_data = newMvex\<rparr>
              \<and> sub_offset videoMvex + length audioTrakBox + length newMvex = length merged)"
proof -
  from createMergedMoov_parts [OF found merged fits] obtain patchedTrak newMvex where
    p: "updateTrackIdInTrak audioTrakBox 2 = Inr patchedTrak"
       "newMvex = putUint32 (sub_data videoMvex @ updateTrackIdInTrex audioTrexBox 2) 0
                        (sub_size videoMvex + length audioTrexBox)"
       "merged = putUint32
                      (sliceBytes videoMoovData 0 (sub_offset videoMvex) @ patchedTrak @ newMvex)
                      0 (length merged)"
       "length merged = sub_offset videoMvex + length audioTrakBox + sub_size videoMvex
                            + length audioTrexBox"
       "u32 merged 0 = length merged"
       "take (length audioTrakBox) (drop (sub_offset videoMvex) merged) = patchedTrak"
       "drop (sub_offset videoMvex + length audioTrakBox) merged = newMvex"
       "typeAt newMvex 0 = ''mvex''"
       "u32 newMvex 0 = length newMvex"
    by blast
  have scanpart: "findSubBoxWithOffset merged ''mvex''
                  = Some \<lparr>sub_offset = sub_offset videoMvex + length audioTrakBox,
                          sub_size = length newMvex, sub_data = newMvex\<rparr>
              \<and> sub_offset videoMvex + length audioTrakBox + length newMvex = length merged"
    if wf: "u32 audioTrakBox 0 = length audioTrakBox \<and> 8 \<le> length audioTrakBox
              \<and> typeAt audioTrakBox 0 \<noteq> ''mvex'' \<and> 0 < length audioTrexBox"
  proof -
    from found obtain off sz where
      scan: "scanFor videoMoovData ''mvex'' 8 = Some (off, sz)"
      and off: "sub_offset videoMvex = off" and sz: "sub_size videoMvex = sz"
      by (auto simp: findSubBoxWithOffset_def split: option.splits)
    have ln: "length newMvex = sz + length audioTrexBox"
      using p(7) [symmetric] p(4) by (simp add: off sz)
    from wf have w1: "u32 audioTrakBox 0 = length audioTrakBox" and w2: "8 \<le> length audioTrakBox"
      and w3: "typeAt audioTrakBox 0 \<noteq> ''mvex''" and w4: "0 < length audioTrexBox"
      by blast+
    have "scanFor merged ''mvex'' 8 = Some (off + length audioTrakBox, sz + length audioTrexBox)"
      by (rule merged_scan [OF scan p(4) [unfolded off sz] p(3) [unfolded off] p(6) [unfolded off]
            updateTrackIdInTrak_header [OF p(1)] p(7) [unfolded off] p(8) p(9) w1 w2 w3 w4])
    then have "findSubBoxWithOffset merged ''mvex''
                 = Some \<lparr>sub_offset = off + length audioTrakBox, sub_size = sz + length audioTrexBox,
                         sub_data = sliceBytes merged (off + length audioTrakBox)
                                      (off + length audioTrakBox + (sz + length audioTrexBox))\<rparr>"
      by (simp add: findSubBoxWithOffset_def)
    moreover have "sliceBytes merged (off + length audioTrakBox)
                      (off + length audioTrakBox + (sz + length audioTrexBox)) = newMvex"
      using p(7) [unfolded off] ln by (simp add: sliceBytes_def)
    ultimately show ?thesis using p(4) by (simp add: off sz ln)
  qed
  from p scanpart show ?thesis by blast
qed

theorem createMergedMoov_layout_witness:
  "findSubBoxWithOffset (sampleMoov 5) ''mvex''
     = Some \<lparr>sub_offset = 44, sub_size = 32, sub_data = makeBox ''mvex'' (sampleTrex 5)\<rparr>
   \<and> createMergedMoov (sampleMoov 5) (sampleTrak 9) (Some (sampleTrex 9))
     = Inr (makeBox ''moov''
              (sampleTrak 5 @ sampleTrak 2 @ makeBox ''mvex'' (sampleTrex 5 @ sampleTrex 2)))
   \<and> u32 (makeBox ''moov''
              (sampleTrak 5 @ sampleTrak 2 @ makeBox ''mvex'' (sampleTrex 5 @ sampleTrex 2))) 0 = 136
   \<and> findSubBoxWithOffset
        (makeBox ''moov''
              (sampleTrak 5 @ sampleTrak 2 @ makeBox ''mvex'' (sampleTrex 5 @ sampleTrex 2))) ''mvex''
       = Some \<lparr>sub_offset = 80, sub_size = 56,
               sub_data = makeBox ''mvex'' (sampleTrex 5 @ sampleTrex 2)\<rparr>"
proof -
  let ?mvex = "\<lparr>sub_offset = 44, sub_size = 32, sub_data = makeBox ''mvex'' (sampleTrex 5)\<rparr>"
  let ?merged = "makeBox ''moov''
              (sampleTrak 5 @ sampleTrak 2 @ makeBox ''mvex'' (sampleTrex 5 @ sampleTrex 2))"
  have f: "findSubBoxWithOffset (sampleMoov 5) ''mvex'' = Some ?mvex" by code_simp
  have m: "createMergedMoov (sampleMoov 5) (sampleTrak 9) (Some (sampleTrex 9)) = Inr ?merged"
    by code_simp
  have l: "length ?merged = 136" by code_simp
  then have fits: "length ?merged < 4294967296" by simp
  have wf: "u32 (sampleTrak 9) 0 = length (sampleTrak 9) \<and> 8 \<le> length (sampleTrak 9)
              \<and> typeAt (sampleTrak 9) 0 \<noteq> ''mvex'' \<and> 0 < length (sampleTrex 9)"
    by code_simp
  have lt: "length (sampleTrak 9) = 36" by code_simp
  have dm: "drop 80 ?merged = makeBox ''mvex'' (sampleTrex 5 @ sampleTrex 2)" by code_simp
  from createMergedMoov_layout [OF f m fits] obtain patchedTrak newMvex where
    r: "u32 ?merged 0 = length ?merged"
       "drop (sub_offset ?mvex + length (sampleTrak 9)) ?merged = newMvex"
       "u32 (sampleTrak 9) 0 = length (sampleTrak 9) \<and> 8 \<le> length (sampleTrak 9)
              \<and> typeAt (sampleTrak 9) 0 \<noteq> ''mvex'' \<and> 0 < length (sampleTrex 9) \<longrightarrow>
                findSubBoxWithOffset ?merged ''mvex''
                  = Some \<lparr>sub_offset = sub_offset ?mvex + length (sampleTrak 9),
                          sub_size = length newMvex, sub_data = newMvex\<rparr>"
    by blast
  from r(2) have nm: "newMvex = makeBox ''mvex'' (sampleTrex 5 @ sampleTrex 2)"
    by (simp add: lt dm)
  have ln: "length (makeBox ''mvex'' (sampleTrex 5 @ sampleTrex 2)) = 56" by code_simp
  from r(3) wf have "findSubBoxWithOffset ?merged ''mvex''
       = Some \<lparr>sub_offset = 80, sub_size = 56,
               sub_data = makeBox ''mvex'' (sampleTrex 5 @ sampleTrex 2)\<rparr>"
    by (simp add: nm lt ln)
  with f m r(1) l show ?thesis by simp
qed

text \<open>
  C3.  The fragmented assembly writes into its audio input.  A \<^verbatim>\<open>sidx\<close> fragment of the
  audio stream is a view of the input buffer, not a copy, and \<^verbatim>\<open>updateTrackIdInSidx\<close>
  stores the new reference identifier through it: on an audio buffer whose \<^verbatim>\<open>sidx\<close> box
  has the reference identifier 1, the assembly returns its output and leaves the audio
  buffer with the reference identifier 2.
\<close>

theorem binaryMux_writes_audio_input:
  "binaryMuxFragmentedMP4 \<lparr>videoData = smallVideo, audioData = smallAudio 1\<rparr>
     = (Inr ([0, 0, 0, 8, 0x66, 0x74, 0x79, 0x70, 0, 0, 0, 17, 0x6D, 0x6F, 0x6F, 0x76,
              0, 0, 0, 9, 0x74, 0x72, 0x61, 0x6B, 0,
              0, 0, 0, 16, 0x73, 0x69, 0x64, 0x78, 0, 0, 0, 0, 0, 0, 0, 2]),
        \<lparr>videoData = smallVideo, audioData = smallAudio 2\<rparr>)
   \<and> smallAudio 2 \<noteq> smallAudio 1"
proof -
  have "binaryMuxFragmentedMP4 \<lparr>videoData = smallVideo, audioData = smallAudio 1\<rparr>
     = (Inr ([0, 0, 0, 8, 0x66, 0x74, 0x79, 0x70, 0, 0, 0, 17, 0x6D, 0x6F, 0x6F, 0x76,
              0, 0, 0, 9, 0x74, 0x72, 0x61, 0x6B, 0,
              0, 0, 0, 16, 0x73, 0x69, 0x64, 0x78, 0, 0, 0, 0, 0, 0, 0, 2]),
        \<lparr>videoData = smallVideo, audioData = smallAudio 2\<rparr>)"
    by code_simp
  moreover have "smallAudio 2 \<noteq> smallAudio 1"
    by (simp add: smallAudio_def)
  ultimately show ?thesis by simp
qed

lemma occursAt_refl: "occursAt 0 x x"
  by (simp add: occursAt_def)

lemma occursAt_append_left: "occursAt k x y \<Longrightarrow> occursAt (length p + k) x (p @ y)"
  by (simp add: occursAt_def)

lemma occursAt_append_right: "occursAt k x y \<Longrightarrow> occursAt k x (y @ q)"
  by (simp add: occursAt_def)

lemma length_charCodes [simp]: "length (charCodes t) = length t"
  by (simp add: charCodes_def)

lemma length_typeCodes [simp]: "length (typeCodes t) = 4"
  by (simp add: typeCodes_def)

lemma length_makeBox [simp]: "length (makeBox t c) = 8 + length c"
  by (simp add: makeBox_def)

lemma occursAt_makeBox: "occursAt k x c \<Longrightarrow> occursAt (8 + k) x (makeBox t c)"
  unfolding makeBox_def
  using occursAt_append_left [of k x c "be32 (8 + length c) @ typeCodes t"]
  by (simp add: add.commute)

lemma occursAt_content: "occursAt 8 c (makeBox t c)"
  using occursAt_makeBox [OF occursAt_refl, of c t] by simp

lemma occursAt_u32:
  assumes "occursAt k x y" "j + 4 \<le> length x"
  shows "u32 y (k + j) = u32 x j"
proof -
  from assms have "u32 x j = u32 (take (length x) (drop k y)) j"
    by (simp add: occursAt_def)
  also have "\<dots> = u32 (drop k y) j" using assms by (simp add: u32_take)
  also have "\<dots> = u32 y (k + j)" using assms by (simp add: u32_drop occursAt_def)
  finally show ?thesis by simp
qed

lemma occursAt_typeAt:
  assumes "occursAt k x y" "j + 8 \<le> length x"
  shows "typeAt y (k + j) = typeAt x j"
proof -
  from assms have "typeAt x j = typeAt (take (length x) (drop k y)) j"
    by (simp add: occursAt_def)
  also have "\<dots> = typeAt (drop k y) j" using assms by (simp add: typeAt_take)
  also have "\<dots> = typeAt y (k + j)" by (simp add: typeAt_drop)
  finally show ?thesis by simp
qed

lemma typeAt_makeBox: "length t = 4 \<Longrightarrow> typeAt (makeBox t c @ rest) 0 = t"
proof -
  assume l: "length t = 4"
  have "char_of (unat (word_of_nat (of_char c :: nat) :: byte)) = c" for c :: char
    by (simp add: unat_byte)
  then have "fromCharCode (charCodes t) = t"
    by (simp add: fromCharCode_def charCodes_def comp_def map_idI)
  moreover from l have "take 4 (charCodes t) = charCodes t" by simp
  ultimately show ?thesis using l
    by (simp add: typeAt_def makeBox_def typeCodes_def)
qed

lemma u32_putUint32_other:
  "off' + 4 \<le> off \<or> off + 4 \<le> off' \<Longrightarrow> u32 (putUint32 view off v) off' = u32 view off'"
  by (auto simp: u32_def putUint32_def)

lemma length_buildTkhd [simp]: "length (buildTkhd track d) = 92"
  by (simp add: buildTkhd_def Let_def)

lemma length_buildMdhd [simp]: "length (buildMdhd t d) = 32"
  by (simp add: buildMdhd_def Let_def)

lemma length_buildHdlr [simp]: "length (buildHdlr type) = 45"
  by (simp add: buildHdlr_def Let_def charCodes_def)

lemma length_mediaHeader [simp]:
  "length buildVmhd = 20" "length buildSmhd = 16" "length buildDinf = 36"
  by (simp_all add: buildVmhd_def buildSmhd_def buildDinf_def buildDref_def)

lemma length_buildStco [simp]: "length (buildStco off) = 20"
  by (simp add: buildStco_def Let_def)

lemma length_buildStsc [simp]: "length (buildStsc samples) = 28"
  by (simp add: buildStsc_def Let_def)























lemma runLengths_entry:
  "(c, d) \<in> set (runLengths xs current count entries) \<Longrightarrow>
     (c, d) \<in> set entries \<or> (c \<le> count + length xs \<and> (d = current \<or> d \<in> set xs))"
proof (induction xs arbitrary: current count entries)
  case Nil
  then show ?case by (auto split: if_splits)
next
  case (Cons x xs)
  show ?case
  proof (cases "x = current")
    case True
    with Cons.prems have "(c, d) \<in> set (runLengths xs current (count + 1) entries)" by simp
    from Cons.IH [OF this] True show ?thesis by auto
  next
    case False
    with Cons.prems have "(c, d) \<in> set (runLengths xs x 1 (entries @ [(count, current)]))"
      by simp
    from Cons.IH [OF this] show ?thesis by auto
  qed
qed

lemma length_runLengths:
  "length (runLengths xs current count entries) \<le> length entries + Suc (length xs)"
proof (induction xs arbitrary: current count entries)
  case Nil
  then show ?case by simp
next
  case (Cons x xs)
  show ?case
  proof (cases "x = current")
    case True
    with Cons.IH [of current "count + 1" entries] show ?thesis by simp
  next
    case False
    with Cons.IH [of x 1 "entries @ [(count, current)]"] show ?thesis by simp
  qed
qed

lemma sttsEntries_entry:
  assumes "(c, d) \<in> set (sttsEntries samples)"
  shows "c \<le> length samples \<and> (d = 1 \<or> d \<in> sample_duration ` set samples)"
proof -
  let ?cur = "case samples of [] \<Rightarrow> 1
        | s # _ \<Rightarrow> if sample_duration s = 0 then 1 else sample_duration s"
  from assms have "(c, d) \<in> set (runLengths (map sample_duration samples) ?cur 0 [])"
    by (simp add: sttsEntries_def)
  from runLengths_entry [OF this]
  have "c \<le> length samples" and d: "d = ?cur \<or> d \<in> sample_duration ` set samples"
    by simp_all
  moreover have "?cur = 1 \<or> ?cur \<in> sample_duration ` set samples"
    by (cases samples) simp_all
  ultimately show ?thesis by auto
qed

lemma length_sttsEntries: "length (sttsEntries samples) \<le> Suc (length samples)"
  using length_runLengths [of "map sample_duration samples" _ 0 "[]"]
  by (simp add: sttsEntries_def)

lemma length_entry_bytes:
  "length (concat (map (\<lambda>(count, duration). be32 count @ be32 duration) es)) = 8 * length es"
  by (induction es) (simp_all add: split_beta)

lemma u32_entry_bytes:
  assumes i: "i < length es"
  shows "u32 (pre @ concat (map (\<lambda>(count, duration). be32 count @ be32 duration) es))
           (length pre + 8 * i) = fst (es ! i) mod 4294967296
       \<and> u32 (pre @ concat (map (\<lambda>(count, duration). be32 count @ be32 duration) es))
           (length pre + 8 * i + 4) = snd (es ! i) mod 4294967296"
proof -
  let ?enc = "\<lambda>(count, duration). be32 count @ be32 duration"
  let ?a = "pre @ concat (map ?enc (take i es))"
  let ?z = "concat (map ?enc (drop (Suc i) es))"
  have "es = take i es @ es ! i # drop (Suc i) es"
    using i by (rule id_take_nth_drop)
  then have "concat (map ?enc es)
               = concat (map ?enc (take i es @ es ! i # drop (Suc i) es))"
    by simp
  then have c: "pre @ concat (map ?enc es)
                  = ?a @ be32 (fst (es ! i)) @ be32 (snd (es ! i)) @ ?z"
    by (simp add: split_beta)
  have la: "length ?a = length pre + 8 * i"
    using i by (simp add: length_entry_bytes)
  have 1: "u32 (?a @ be32 (fst (es ! i)) @ (be32 (snd (es ! i)) @ ?z)) (length ?a)
             = fst (es ! i) mod 4294967296"
    by (rule u32_be32)
  have "u32 ((?a @ be32 (fst (es ! i))) @ be32 (snd (es ! i)) @ ?z)
             (length (?a @ be32 (fst (es ! i)))) = snd (es ! i) mod 4294967296"
    by (rule u32_be32)
  then have 2: "u32 (?a @ be32 (fst (es ! i)) @ be32 (snd (es ! i)) @ ?z) (length ?a + 4)
             = snd (es ! i) mod 4294967296"
    by (simp add: add.assoc)
  from 1 2 show ?thesis unfolding c la by simp
qed

lemma length_buildStts: "length (buildStts samples) = 16 + 8 * length (sttsEntries samples)"
  by (simp add: buildStts_def makeBox_def length_entry_bytes)

lemma buildStts_count:
  "u32 (buildStts samples) 12 = length (sttsEntries samples) mod 4294967296"
proof -
  let ?n = "length (sttsEntries samples)"
  let ?c = "concat (map (\<lambda>(count, duration). be32 count @ be32 duration) (sttsEntries samples))"
  let ?p = "be32 (8 + length (be32 0 @ be32 ?n @ ?c)) @ typeCodes ''stts'' @ be32 0"
  have "u32 (?p @ be32 ?n @ ?c) (length ?p) = ?n mod 4294967296"
    by (rule u32_be32)
  then show ?thesis by (simp add: buildStts_def makeBox_def)
qed

lemma buildStts_entry:
  assumes "i < length (sttsEntries samples)"
  shows "u32 (buildStts samples) (16 + 8 * i) = fst (sttsEntries samples ! i) mod 4294967296
       \<and> u32 (buildStts samples) (20 + 8 * i) = snd (sttsEntries samples ! i) mod 4294967296"
proof -
  let ?n = "length (sttsEntries samples)"
  let ?c = "concat (map (\<lambda>(count, duration). be32 count @ be32 duration) (sttsEntries samples))"
  let ?p = "be32 (8 + length (be32 0 @ be32 ?n @ ?c)) @ typeCodes ''stts'' @ be32 0 @ be32 ?n"
  have b: "buildStts samples = ?p @ ?c"
    by (simp add: buildStts_def makeBox_def)
  have l: "length ?p = 16" by simp
  from u32_entry_bytes [OF assms, of ?p] show ?thesis
    unfolding b l by (simp add: add.commute add.left_commute)
qed

lemma readStts_buildStts:
  assumes n: "length (sttsEntries samples) < 4294967296"
  shows "readSttsEntries (buildStts samples) 0
           = map (\<lambda>(c, d). (c mod 4294967296, d mod 4294967296)) (sttsEntries samples)"
proof (rule nth_equalityI)
  show "length (readSttsEntries (buildStts samples) 0)
          = length (map (\<lambda>(c, d). (c mod 4294967296, d mod 4294967296)) (sttsEntries samples))"
    using n by (simp add: readSttsEntries_def buildStts_count)
next
  fix i
  assume "i < length (readSttsEntries (buildStts samples) 0)"
  then have i: "i < length (sttsEntries samples)"
    using n by (simp add: readSttsEntries_def buildStts_count)
  then have "readSttsEntries (buildStts samples) 0 ! i
               = (u32 (buildStts samples) (16 + 8 * i), u32 (buildStts samples) (20 + 8 * i))"
    using n by (simp add: readSttsEntries_def buildStts_count)
  with buildStts_entry [OF i] i
  show "readSttsEntries (buildStts samples) 0 ! i
          = map (\<lambda>(c, d). (c mod 4294967296, d mod 4294967296)) (sttsEntries samples) ! i"
    by (simp add: split_beta)
qed

lemma readStts_occurs:
  assumes at: "occursAt k x y" and wf: "16 + 8 * u32 x 12 \<le> length x"
  shows "readSttsEntries y k = readSttsEntries x 0"
proof -
  have c: "u32 y (k + 12) = u32 x 12"
    by (rule occursAt_u32 [OF at]) (use wf in simp)
  have "u32 y (k + (16 + 8 * i)) = u32 x (16 + 8 * i)
      \<and> u32 y (k + (20 + 8 * i)) = u32 x (20 + 8 * i)" if "i < u32 x 12" for i
  proof
    show "u32 y (k + (16 + 8 * i)) = u32 x (16 + 8 * i)"
      by (rule occursAt_u32 [OF at]) (use wf that in simp)
    show "u32 y (k + (20 + 8 * i)) = u32 x (20 + 8 * i)"
      by (rule occursAt_u32 [OF at]) (use wf that in simp)
  qed
  then show ?thesis
    by (simp add: readSttsEntries_def c add.assoc)
qed

lemma stts_in_trak:
  "occursAt (sttsPosition stsd track) (buildStts (track_samples track))
     (trakWith stsd track ts off)"
proof -
  let ?x = "buildStts (track_samples track)"
  let ?mh = "if track_type track = ''video'' then buildVmhd else buildSmhd"
  let ?stbl = "makeBox ''stbl'' (concat (stblParts stsd track off))"
  let ?minf = "makeBox ''minf'' (?mh @ buildDinf @ ?stbl)"
  let ?mdia = "makeBox ''mdia'' (buildMdhd (track_timescale track) (track_duration track)
                 @ buildHdlr (track_type track) @ ?minf)"
  let ?tkhd = "buildTkhd track (mathRound (scaleDuration (track_duration track) ts (track_timescale track)))"
  obtain rest where c: "concat (stblParts stsd track off) = stsd @ ?x @ rest"
    by (simp add: stblParts_def)
  have "occursAt (length stsd + 0) ?x (stsd @ ?x @ rest)"
    by (intro occursAt_append_left occursAt_append_right occursAt_refl)
  then have 0: "occursAt (length stsd) ?x (concat (stblParts stsd track off))"
    by (simp add: c)
  have 1: "occursAt (8 + length stsd) ?x ?stbl"
    by (intro occursAt_makeBox 0)
  have "occursAt (length (?mh @ buildDinf) + (8 + length stsd)) ?x ((?mh @ buildDinf) @ ?stbl)"
    using 1 by (rule occursAt_append_left)
  then have 2: "occursAt (8 + (length ?mh + 36 + (8 + length stsd))) ?x ?minf"
    by (intro occursAt_makeBox) simp
  have "occursAt (length (buildMdhd (track_timescale track) (track_duration track)
                 @ buildHdlr (track_type track)) + (8 + (length ?mh + 36 + (8 + length stsd))))
          ?x
          ((buildMdhd (track_timescale track) (track_duration track)
                 @ buildHdlr (track_type track)) @ ?minf)"
    using 2 by (rule occursAt_append_left)
  then have 3: "occursAt (8 + (32 + 45 + (8 + (length ?mh + 36 + (8 + length stsd))))) ?x ?mdia"
    by (intro occursAt_makeBox) simp
  have "occursAt (length ?tkhd + (8 + (32 + 45 + (8 + (length ?mh + 36 + (8 + length stsd))))))
          ?x (?tkhd @ ?mdia)"
    using 3 by (rule occursAt_append_left)
  then have "occursAt (8 + (92 + (8 + (32 + 45 + (8 + (length ?mh + 36 + (8 + length stsd)))))))
          ?x (makeBox ''trak'' (?tkhd @ ?mdia))"
    by (intro occursAt_makeBox) simp
  moreover have "8 + (92 + (8 + (32 + 45 + (8 + (length ?mh + 36 + (8 + length stsd))))))
                   = sttsPosition stsd track"
    by (simp add: sttsPosition_def)
  ultimately show ?thesis by (simp add: trakWith_def Let_def)
qed

lemma sttsEntries_stored:
  assumes n: "length samples < 4294967295"
  shows "readSttsEntries (buildStts samples) 0
           = map (\<lambda>(c, d). (c, d mod 4294967296)) (sttsEntries samples)"
proof -
  have "length (sttsEntries samples) < 4294967296"
    using length_sttsEntries [of samples] n by simp
  then have "readSttsEntries (buildStts samples) 0
           = map (\<lambda>(c, d). (c mod 4294967296, d mod 4294967296)) (sttsEntries samples)"
    by (rule readStts_buildStts)
  also have "\<dots> = map (\<lambda>(c, d). (c, d mod 4294967296)) (sttsEntries samples)"
  proof (rule map_cong [OF refl])
    fix e
    assume e: "e \<in> set (sttsEntries samples)"
    obtain c d where cd: "e = (c, d)" by (cases e)
    from sttsEntries_entry [of c d samples] e cd n have "c < 4294967296" by simp
    then show "(case e of (c, d) \<Rightarrow> (c mod 4294967296, d mod 4294967296))
             = (case e of (c, d) \<Rightarrow> (c, d mod 4294967296))"
      by (simp add: cd)
  qed
  finally show ?thesis .
qed

lemma sttsEntries_read:
  assumes n: "length samples < 4294967295"
    and d: "\<forall>s \<in> set samples. sample_duration s < 4294967296"
  shows "readSttsEntries (buildStts samples) 0 = sttsEntries samples"
proof -
  have "map (\<lambda>(c, d). (c, d mod 4294967296)) (sttsEntries samples)
          = map (\<lambda>e. e) (sttsEntries samples)"
  proof (rule map_cong [OF refl])
    fix e
    assume e: "e \<in> set (sttsEntries samples)"
    obtain c x where cd: "e = (c, x)" by (cases e)
    from sttsEntries_entry [of c x samples] e cd d have "x < 4294967296" by auto
    then show "(case e of (c, d) \<Rightarrow> (c, d mod 4294967296)) = e"
      by (simp add: cd)
  qed
  with sttsEntries_stored [OF n] show ?thesis by simp
qed

lemma buildStts_wellformed:
  assumes n: "length samples < 4294967295"
  shows "16 + 8 * u32 (buildStts samples) 12 \<le> length (buildStts samples)"
proof -
  have "length (sttsEntries samples) < 4294967296"
    using length_sttsEntries [of samples] n by simp
  then show ?thesis by (simp add: buildStts_count length_buildStts)
qed

lemma expand_sttsEntries: "expandRuns (sttsEntries samples) = map sample_duration samples"
  by (simp add: sttsEntries_def expandRuns_runLengths) (simp add: expandRuns_def)

text \<open>
  C8.  The \<^verbatim>\<open>stts\<close> box of the progressive builders is a box of type \<^verbatim>\<open>stts\<close> and lies in
  the built \<^verbatim>\<open>trak\<close> box after the \<^verbatim>\<open>stsd\<close> box.  With fewer than \<open>2 ^ 32 - 1\<close> samples,
  the entries read back from its bytes are the run-length entries with each duration
  as its 32-bit field holds it; when moreover every duration is below \<open>2 ^ 32\<close>, they
  are the run-length entries themselves, and expanded run by run they are the durations
  of the samples in order, read from the box or from the built \<^verbatim>\<open>trak\<close> of either
  builder.  The run-length entries always expand to the durations.  Samples of durations
  10, 10 and 5 give the entries (2, 10) and (1, 5), in the bytes of the box.
\<close>

theorem stts_roundtrip:
  "typeAt (buildStts samples) 0 = ''stts''
   \<and> occursAt (sttsPosition (stsdOfRaw track) track) (buildStts (track_samples track))
       (buildTrak track off)
   \<and> occursAt (sttsPosition (buildStsd track) track) (buildStts (track_samples track))
       (buildTrakWithOffset track 1000 off)
   \<and> expandRuns (sttsEntries samples) = map sample_duration samples
   \<and> (length samples < 4294967295 \<longrightarrow>
        readSttsEntries (buildStts samples) 0
          = map (\<lambda>(c, d). (c, d mod 4294967296)) (sttsEntries samples))
   \<and> (length samples < 4294967295 \<and> (\<forall>s \<in> set samples. sample_duration s < 4294967296) \<longrightarrow>
        readSttsEntries (buildStts samples) 0 = sttsEntries samples
        \<and> expandRuns (readSttsEntries (buildStts samples) 0) = map sample_duration samples)
   \<and> (length (track_samples track) < 4294967295
        \<and> (\<forall>s \<in> set (track_samples track). sample_duration s < 4294967296) \<longrightarrow>
        expandRuns (readSttsEntries (buildTrak track off) (sttsPosition (stsdOfRaw track) track))
          = map sample_duration (track_samples track)
        \<and> expandRuns (readSttsEntries (buildTrakWithOffset track 1000 off)
                         (sttsPosition (buildStsd track) track))
          = map sample_duration (track_samples track))
   \<and> (map sample_duration samples = [10, 10, 5] \<longrightarrow>
        sttsEntries samples = [(2, 10), (1, 5)]
        \<and> buildStts samples
            = [0, 0, 0, 32, 0x73, 0x74, 0x74, 0x73, 0, 0, 0, 0, 0, 0, 0, 2,
               0, 0, 0, 2, 0, 0, 0, 10, 0, 0, 0, 1, 0, 0, 0, 5]
        \<and> readSttsEntries (buildStts samples) 0 = [(2, 10), (1, 5)])"
proof -
  have ty: "typeAt (buildStts samples) 0 = ''stts''"
    using typeAt_makeBox [of "''stts''" _ "[]"] by (simp add: buildStts_def)
  have a1: "occursAt (sttsPosition (stsdOfRaw track) track) (buildStts (track_samples track))
       (buildTrak track off)"
    unfolding buildTrak_def by (rule stts_in_trak)
  have a2: "occursAt (sttsPosition (buildStsd track) track) (buildStts (track_samples track))
       (buildTrakWithOffset track 1000 off)"
    unfolding buildTrakWithOffset_def by (rule stts_in_trak)
  have ex: "expandRuns (sttsEntries samples) = map sample_duration samples"
    by (rule expand_sttsEntries)
  have st: "length samples < 4294967295 \<longrightarrow>
        readSttsEntries (buildStts samples) 0
          = map (\<lambda>(c, d). (c, d mod 4294967296)) (sttsEntries samples)"
    using sttsEntries_stored by blast
  have rd: "length samples < 4294967295 \<and> (\<forall>s \<in> set samples. sample_duration s < 4294967296) \<longrightarrow>
        readSttsEntries (buildStts samples) 0 = sttsEntries samples
        \<and> expandRuns (readSttsEntries (buildStts samples) 0) = map sample_duration samples"
    using sttsEntries_read [of samples] expand_sttsEntries [of samples] by simp
  have tr: "expandRuns (readSttsEntries (buildTrak track off) (sttsPosition (stsdOfRaw track) track))
          = map sample_duration (track_samples track)
        \<and> expandRuns (readSttsEntries (buildTrakWithOffset track 1000 off)
                         (sttsPosition (buildStsd track) track))
          = map sample_duration (track_samples track)"
    if n: "length (track_samples track) < 4294967295"
      and d: "\<forall>s \<in> set (track_samples track). sample_duration s < 4294967296"
  proof -
    let ?x = "buildStts (track_samples track)"
    have r: "expandRuns (readSttsEntries ?x 0) = map sample_duration (track_samples track)"
      by (simp only: sttsEntries_read [OF n d] expand_sttsEntries)
    have "readSttsEntries (buildTrak track off) (sttsPosition (stsdOfRaw track) track)
            = readSttsEntries ?x 0"
      using a1 buildStts_wellformed [OF n] by (rule readStts_occurs)
    moreover have "readSttsEntries (buildTrakWithOffset track 1000 off)
                         (sttsPosition (buildStsd track) track)
            = readSttsEntries ?x 0"
      using a2 buildStts_wellformed [OF n] by (rule readStts_occurs)
    ultimately show ?thesis using r by simp
  qed
  have eg: "sttsEntries samples = [(2, 10), (1, 5)]
        \<and> buildStts samples
            = [0, 0, 0, 32, 0x73, 0x74, 0x74, 0x73, 0, 0, 0, 0, 0, 0, 0, 2,
               0, 0, 0, 2, 0, 0, 0, 10, 0, 0, 0, 1, 0, 0, 0, 5]
        \<and> readSttsEntries (buildStts samples) 0 = [(2, 10), (1, 5)]"
    if d: "map sample_duration samples = [10, 10, 5]"
  proof -
    have "length (map sample_duration samples) = length [10, 10, 5 :: nat]"
      by (simp only: d)
    then have l: "length samples = 3" by simp
    then obtain a b c where s: "samples = [a, b, c]"
      by (auto simp: numeral_3_eq_3 length_Suc_conv)
    with d have e: "sttsEntries samples = [(2, 10), (1, 5)]"
      by (simp add: sttsEntries_def)
    have b: "buildStts samples
            = [0, 0, 0, 32, 0x73, 0x74, 0x74, 0x73, 0, 0, 0, 0, 0, 0, 0, 2,
               0, 0, 0, 2, 0, 0, 0, 10, 0, 0, 0, 1, 0, 0, 0, 5]"
      by (simp add: buildStts_def e makeBox_def be32_def typeCodes_def charCodes_def)
    have "\<forall>s \<in> set samples. sample_duration s \<in> set (map sample_duration samples)"
      by simp
    then have "\<forall>s \<in> set samples. sample_duration s < 4294967296"
      unfolding d by auto
    with sttsEntries_read [of samples] l e
    have "readSttsEntries (buildStts samples) 0 = [(2, 10), (1, 5)]" by simp
    with e b show ?thesis by blast
  qed
  from ty a1 a2 ex st rd tr eg show ?thesis by blast
qed

theorem stts_roundtrip_witness:
  "length [sampleOfDuration 10, sampleOfDuration 10, sampleOfDuration 5] < 4294967295
   \<and> list_all (\<lambda>s. sample_duration s < 4294967296)
        [sampleOfDuration 10, sampleOfDuration 10, sampleOfDuration 5]
   \<and> map sample_duration [sampleOfDuration 10, sampleOfDuration 10, sampleOfDuration 5]
       = [10, 10, 5]
   \<and> buildStts [sampleOfDuration 10, sampleOfDuration 10, sampleOfDuration 5]
       = [0, 0, 0, 32, 0x73, 0x74, 0x74, 0x73, 0, 0, 0, 0, 0, 0, 0, 2,
          0, 0, 0, 2, 0, 0, 0, 10, 0, 0, 0, 1, 0, 0, 0, 5]
   \<and> readSttsEntries (buildStts [sampleOfDuration 10, sampleOfDuration 10, sampleOfDuration 5]) 0
       = [(2, 10), (1, 5)]
   \<and> expandRuns
        (readSttsEntries (buildStts [sampleOfDuration 10, sampleOfDuration 10, sampleOfDuration 5]) 0)
       = [10, 10, 5]
   \<and> length (track_samples sampleVideoTrack) < 4294967295
   \<and> list_all (\<lambda>s. sample_duration s < 4294967296) (track_samples sampleVideoTrack)
   \<and> expandRuns (readSttsEntries (buildTrak sampleVideoTrack 0)
                    (sttsPosition (stsdOfRaw sampleVideoTrack) sampleVideoTrack))
       = [1, 1]"
proof -
  let ?s = "[sampleOfDuration 10, sampleOfDuration 10, sampleOfDuration 5]"
  have n: "length ?s < 4294967295" by simp
  have b: "\<forall>s \<in> set ?s. sample_duration s < 4294967296"
    by (simp add: sampleOfDuration_def)
  have d: "map sample_duration ?s = [10, 10, 5]" by (simp add: sampleOfDuration_def)
  have tn: "length (track_samples sampleVideoTrack) < 4294967295"
    by (simp add: sampleVideoTrack_def)
  have tb: "\<forall>s \<in> set (track_samples sampleVideoTrack). sample_duration s < 4294967296"
    by (simp add: sampleVideoTrack_def)
  have td: "map sample_duration (track_samples sampleVideoTrack) = [1, 1]"
    by (simp add: sampleVideoTrack_def)
  note t = stts_roundtrip [of ?s sampleVideoTrack 0]
  from t n b have x: "expandRuns (readSttsEntries (buildStts ?s) 0) = map sample_duration ?s"
    by blast
  from t d have e: "buildStts ?s
       = [0, 0, 0, 32, 0x73, 0x74, 0x74, 0x73, 0, 0, 0, 0, 0, 0, 0, 2,
          0, 0, 0, 2, 0, 0, 0, 10, 0, 0, 0, 1, 0, 0, 0, 5]
     \<and> readSttsEntries (buildStts ?s) 0 = [(2, 10), (1, 5)]"
    by blast
  from t tn tb have y: "expandRuns (readSttsEntries (buildTrak sampleVideoTrack 0)
                    (sttsPosition (stsdOfRaw sampleVideoTrack) sampleVideoTrack))
       = map sample_duration (track_samples sampleVideoTrack)"
    by blast
  from x have x': "expandRuns (readSttsEntries (buildStts ?s) 0) = [10, 10, 5]"
    unfolding d .
  from y have y': "expandRuns (readSttsEntries (buildTrak sampleVideoTrack 0)
                    (sttsPosition (stsdOfRaw sampleVideoTrack) sampleVideoTrack)) = [1, 1]"
    unfolding td .
  from b have b': "list_all (\<lambda>s. sample_duration s < 4294967296) ?s"
    unfolding list_all_iff .
  from tb have tb': "list_all (\<lambda>s. sample_duration s < 4294967296) (track_samples sampleVideoTrack)"
    unfolding list_all_iff .
  from n b' d e x' tn tb' y' show ?thesis by blast
qed

lemma scanFor_same_prefix:
  assumes scan: "scanFor data t start = Some (off, sz)"
    and len: "off + 8 < length data'" "off + sz \<le> length data'"
    and agree: "\<forall>i. start \<le> i \<and> i < off + 8 \<longrightarrow> data' ! i = data ! i"
  shows "scanFor data' t start = Some (off, sz)"
proof -
  from scanFor_Some [OF scan] have
    s: "start \<le> off" "off + 8 < length data" "8 \<le> sz" "off + sz \<le> length data"
       "typeAt data off = t" "sz = u32 data off"
    by simp_all
  have "scanFor data' t start = scanFor data' t off"
  proof (rule scanFor_agree [OF scan])
    show "off < length data'" using len by simp
    show "\<forall>i. start \<le> i \<and> i < off \<longrightarrow> data' ! i = data ! i"
      using agree by simp
  qed
  moreover have "u32 data' off = u32 data off"
    using agree s by (intro u32_agree) auto
  moreover have "typeAt data' off = typeAt data off"
    using agree s len by (intro typeAt_agree) auto
  ultimately show ?thesis
    using s len by (simp add: scanFor.simps [of data' t off])
qed

lemma trackIdOfTrak_patched:
  assumes p: "updateTrackIdInTrak trak n = Inr patched"
    and tk: "scanFor trak ''tkhd'' 8 \<noteq> None"
  shows "trackIdOfTrak patched = Some (n mod 4294967296)"
proof -
  from tk obtain off sz where scan: "scanFor trak ''tkhd'' 8 = Some (off, sz)"
    by auto
  from scanFor_Some [OF scan] have
    s: "8 \<le> off" "off + 8 < length trak" "8 \<le> sz" "off + sz \<le> length trak"
    by simp_all
  define k :: nat where "k = (if off + 8 < length trak \<and> trak ! (off + 8) = 0 then 20 else 28)"
  have k: "20 \<le> k" by (simp add: k_def)
  from p scan have pt: "patched = putUint32 trak (off + k) n" and rng: "off + k + 4 \<le> length trak"
    by (auto simp: updateTrackIdInTrak_def Let_def setUint32_def k_def split: if_splits)
  have lp: "length patched = length trak" by (simp add: pt)
  have same: "\<forall>i. i < off + 20 \<longrightarrow> patched ! i = trak ! i"
    using k by (auto simp: pt putUint32_def)
  have scan': "scanFor patched ''tkhd'' 8 = Some (off, sz)"
    using scan _ _ _ by (rule scanFor_same_prefix) (use s same lp in auto)
  have v: "patched ! (off + 8) = trak ! (off + 8)"
    using same by simp
  have "u32 patched (off + k) = n mod 4294967296"
    unfolding pt using rng by (rule u32_putUint32)
  then show ?thesis
    using scan' v lp rng by (simp add: trackIdOfTrak_def Let_def k_def)
qed

lemma createMergedMoov_kept:
  assumes m: "createMergedMoov videoMoovData audioTrakBox audioTrexBox = Inr merged"
    and p: "updateTrackIdInTrak audioTrakBox 2 = Inr patched"
  shows "\<exists>tail n. merged = putUint32 (take (keptLength videoMoovData audioTrexBox) videoMoovData
                                        @ patched @ tail) 0 n"
    and "keptLength videoMoovData audioTrexBox \<le> length videoMoovData"
proof -
  show "keptLength videoMoovData audioTrexBox \<le> length videoMoovData"
  proof (cases "scanFor videoMoovData ''mvex'' 8")
    case None
    then show ?thesis by (simp add: keptLength_def findSubBoxWithOffset_def)
  next
    case (Some q)
    obtain off sz where q: "q = (off, sz)" by (cases q)
    from scanFor_Some [OF Some [unfolded q]] have "off \<le> length videoMoovData" by simp
    with Some q show ?thesis
      by (auto simp: keptLength_def findSubBoxWithOffset_def split: option.splits)
  qed
  show "\<exists>tail n. merged = putUint32 (take (keptLength videoMoovData audioTrexBox) videoMoovData
                                        @ patched @ tail) 0 n"
  proof (cases "\<exists>off sz trex. scanFor videoMoovData ''mvex'' 8 = Some (off, sz)
                  \<and> audioTrexBox = Some trex")
    case True
    then obtain off sz trex where scan: "scanFor videoMoovData ''mvex'' 8 = Some (off, sz)"
      and t: "audioTrexBox = Some trex" by blast
    have k: "keptLength videoMoovData audioTrexBox = off"
      using scan t by (simp add: keptLength_def findSubBoxWithOffset_def)
    from m p scan t obtain tail n where
      "merged = putUint32 (sliceBytes videoMoovData 0 off @ patched @ tail) 0 n"
      by (auto simp: createMergedMoov_def findSubBoxWithOffset_def Let_def setUint32_def
          split: if_splits)
    then have "merged = putUint32 (take off videoMoovData @ patched @ tail) 0 n"
      by (simp add: sliceBytes_def)
    then show ?thesis unfolding k by blast
  next
    case False
    then have k: "keptLength videoMoovData audioTrexBox = length videoMoovData"
      by (auto simp: keptLength_def findSubBoxWithOffset_def split: option.splits)
    from False m p obtain n where
      "merged = putUint32 (videoMoovData @ patched) 0 n"
      by (auto simp: createMergedMoov_def findSubBoxWithOffset_def Let_def setUint32_def
          split: if_splits option.splits prod.splits)
    then have "merged = putUint32 (take (length videoMoovData) videoMoovData @ patched @ []) 0 n"
      by simp
    then show ?thesis unfolding k by blast
  qed
qed

lemma merged_audio_trak:
  assumes m: "merged = putUint32 (take keep v @ patched @ tail) 0 n"
    and k: "4 \<le> keep" "keep \<le> length v"
  shows "occursAt keep patched merged"
proof -
  have "drop keep merged = patched @ tail"
    unfolding m using k by (simp add: drop_putUint32)
  moreover have "keep + length patched \<le> length merged"
    unfolding m using k by simp
  ultimately show ?thesis by (simp add: occursAt_def)
qed

lemma merged_video_trak:
  assumes m: "merged = putUint32 (take keep v @ patched @ tail) 0 n"
    and k: "keep \<le> length v" "0 < length patched"
    and scan: "scanFor v ''trak'' 8 = Some (off, sz)"
    and before: "off + sz \<le> keep"
  shows "findSubBox merged ''trak'' = Some (sliceBytes v off (off + sz))"
proof -
  from scanFor_Some [OF scan] have
    s: "8 \<le> off" "off + 8 < length v" "8 \<le> sz" "off + sz \<le> length v"
    by simp_all
  have lm: "length merged = keep + length patched + length tail"
    unfolding m using k by simp
  have agree: "\<forall>i. 8 \<le> i \<and> i < off + 8 \<longrightarrow> merged ! i = v ! i"
    using s before k by (auto simp: m nth_putUint32 nth_append)
  have "scanFor merged ''trak'' 8 = Some (off, sz)"
  proof (rule scanFor_same_prefix [OF scan _ _ agree])
    show "off + 8 < length merged" using lm s before k by linarith
    show "off + sz \<le> length merged" using lm before by simp
  qed
  moreover have "sliceBytes merged off (off + sz) = sliceBytes v off (off + sz)"
  proof -
    have "drop off merged = drop off (take keep v) @ patched @ tail"
      unfolding m using s before k by (simp add: drop_putUint32)
    then have "take sz (drop off merged) = take sz (drop off (take keep v))"
      using before k by simp
    also have "\<dots> = take sz (drop off v)"
      using before by (simp add: drop_take)
    finally show ?thesis by (simp add: sliceBytes_def)
  qed
  ultimately show ?thesis by (simp add: findSubBox_def)
qed

lemma occursAt_nth: "occursAt k x y \<Longrightarrow> j < length x \<Longrightarrow> y ! (k + j) = x ! j"
proof -
  assume a: "occursAt k x y" "j < length x"
  have "y ! (k + j) = drop k y ! j" using a by (simp add: occursAt_def)
  also have "\<dots> = take (length x) (drop k y) ! j" using a by simp
  also have "\<dots> = x ! j" using a by (simp add: occursAt_def)
  finally show ?thesis .
qed

lemma nth_putUint32_before: "i < off \<Longrightarrow> putUint32 view off v ! i = view ! i"
  by (simp add: putUint32_def)

lemma nth_putUint16_before: "i < off \<Longrightarrow> putUint16 view off v ! i = view ! i"
  by (simp add: putUint16_def)

lemma u32_putUint16_other:
  "off' + 4 \<le> off \<or> off + 2 \<le> off' \<Longrightarrow> u32 (putUint16 view off v) off' = u32 view off'"
  by (auto simp: u32_def putUint16_def)

lemma tkhd_fields:
  "u32 (buildTkhd track d) 0 = 92 \<and> typeAt (buildTkhd track d) 0 = ''tkhd''
   \<and> buildTkhd track d ! 8 = 0
   \<and> u32 (buildTkhd track d) 20 = track_id track mod 4294967296"
proof -
  define c2 where "c2 = putUint32 (putUint32 (replicate 84 0) 0 3) 12 (track_id track)"
  define c where
    "c = putUint32 (putUint32 (putUint32 (putUint32 (putUint32
           (putUint16 (putUint32 c2 20 (toUint32 d)) 36
              (if track_type track = ''audio'' then 256 else 0))
           40 65536) 56 65536) 72 1073741824) 76 (track_width track * 65536))
           80 (track_height track * 65536)"
  have b: "buildTkhd track d = makeBox ''tkhd'' c"
    by (simp add: buildTkhd_def Let_def c_def c2_def)
  have lc: "length c = 84" by (simp add: c_def c2_def)
  have "c ! 0 = c2 ! 0"
    by (simp add: c_def nth_putUint32_before nth_putUint16_before)
  also have "\<dots> = putUint32 (replicate 84 0) 0 3 ! 0"
    by (simp add: c2_def nth_putUint32_before)
  also have "\<dots> = 0"
    by (simp add: putUint32_def)
  finally have c0: "c ! 0 = 0" .
  have "u32 c 12 = u32 c2 12"
    by (simp add: c_def u32_putUint32_other u32_putUint16_other)
  also have "\<dots> = track_id track mod 4294967296"
    unfolding c2_def by (rule u32_putUint32) simp
  finally have c12: "u32 c 12 = track_id track mod 4294967296" .
  have "u32 ([] @ be32 (8 + length c) @ (typeCodes ''tkhd'' @ c)) (length ([] :: bytes))
          = (8 + length c) mod 4294967296"
    by (rule u32_be32)
  then have 1: "u32 (buildTkhd track d) 0 = 92" by (simp add: b makeBox_def lc)
  have 2: "typeAt (buildTkhd track d) 0 = ''tkhd''"
    using typeAt_makeBox [of "''tkhd''" c "[]"] by (simp add: b)
  have "makeBox ''tkhd'' c ! (8 + 0) = c ! 0"
    by (rule occursAt_nth [OF occursAt_content]) (simp add: lc)
  then have 3: "buildTkhd track d ! 8 = 0" by (simp add: b c0)
  have "u32 (makeBox ''tkhd'' c) (8 + 12) = u32 c 12"
    by (rule occursAt_u32 [OF occursAt_content]) (simp add: lc)
  then have 4: "u32 (buildTkhd track d) 20 = track_id track mod 4294967296"
    by (simp add: b c12)
  from 1 2 3 4 show ?thesis by simp
qed

lemma trackIdOfTrak_trakWith:
  "trackIdOfTrak (trakWith stsd track ts off) = Some (track_id track mod 4294967296)"
proof -
  define tkhd where
    "tkhd = buildTkhd track (mathRound (scaleDuration (track_duration track) ts (track_timescale track)))"
  obtain mdia where t: "trakWith stsd track ts off = makeBox ''trak'' (tkhd @ mdia)"
    and lmd: "8 \<le> length mdia"
    by (simp add: trakWith_def Let_def tkhd_def)
  let ?trak = "makeBox ''trak'' (tkhd @ mdia)"
  have lt: "length tkhd = 92" by (simp add: tkhd_def)
  have at: "occursAt (8 + 0) tkhd ?trak"
    by (intro occursAt_makeBox occursAt_append_right occursAt_refl)
  have f: "u32 tkhd 0 = 92" "typeAt tkhd 0 = ''tkhd''" "tkhd ! 8 = 0"
          "u32 tkhd 20 = track_id track mod 4294967296"
    using tkhd_fields [of track] by (simp_all add: tkhd_def)
  have u: "u32 ?trak 8 = 92"
    using occursAt_u32 [OF at, of 0] f lt by simp
  have ty: "typeAt ?trak 8 = ''tkhd''"
    using occursAt_typeAt [OF at, of 0] f lt by simp
  have v: "?trak ! 16 = 0"
    using occursAt_nth [OF at, of 8] f lt by simp
  have id: "u32 ?trak 28 = track_id track mod 4294967296"
    using occursAt_u32 [OF at, of 20] f lt by simp
  have scan: "scanFor ?trak ''tkhd'' 8 = Some (8, 92)"
    using u ty lt lmd by (simp add: scanFor.simps [of ?trak "''tkhd''" 8])
  show ?thesis
    unfolding t using scan v id lt lmd by (simp add: trackIdOfTrak_def Let_def)
qed

lemma outputTracks_ids:
  "map track_id acc = [1..<Suc (length acc)] \<Longrightarrow>
     map track_id (outputTracks videoStsd audioStsd samplesOf infos acc)
       = [1..<Suc (length (outputTracks videoStsd audioStsd samplesOf infos acc))]"
proof (induction infos arbitrary: acc)
  case Nil
  then show ?case by simp
next
  case (Cons t infos)
  show ?case
  proof (cases "samplesOf (info_id t)")
    case None
    with Cons show ?thesis by simp
  next
    case (Some samples)
    show ?thesis
    proof (cases "samples = []")
      case True
      with Some Cons show ?thesis by simp
    next
      case False
      with Some Cons.prems show ?thesis
        by (simp add: Let_def Cons.IH)
    qed
  qed
qed

text \<open>
  C2.  On the fragmented path the merged movie box holds, right after the bytes kept from
  the video movie box, the audio \<^verbatim>\<open>trak\<close> patched by \<^verbatim>\<open>updateTrackIdInTrak\<close>, whose track
  identifier reads 2 when it has a \<^verbatim>\<open>tkhd\<close> box; the first \<^verbatim>\<open>trak\<close> of the merged box is the
  first \<^verbatim>\<open>trak\<close> of the video movie box, byte for byte, so the video track keeps the
  identifier of its source.  On the progressive path a built \<^verbatim>\<open>trak\<close> carries the
  identifier of its track (as the 32-bit field holds it), and the tracks with samples
  get the identifiers 1, 2, ... in the order in which the demuxer reports them: 1 and 2
  for a track followed by another one.
\<close>

theorem track_ids_by_path:
  "(createMergedMoov videoMoovData audioTrakBox audioTrexBox = Inr merged
      \<and> updateTrackIdInTrak audioTrakBox 2 = Inr patched
      \<and> 4 \<le> keptLength videoMoovData audioTrexBox \<longrightarrow>
        occursAt (keptLength videoMoovData audioTrexBox) patched merged
        \<and> (scanFor audioTrakBox ''tkhd'' 8 \<noteq> None \<longrightarrow> trackIdOfTrak patched = Some 2)
        \<and> (\<forall>off sz. scanFor videoMoovData ''trak'' 8 = Some (off, sz)
               \<and> off + sz \<le> keptLength videoMoovData audioTrexBox \<and> audioTrakBox \<noteq> [] \<longrightarrow>
               findSubBox merged ''trak'' = findSubBox videoMoovData ''trak''))
   \<and> trackIdOfTrak (buildTrak track dataOffset) = Some (track_id track mod 4294967296)
   \<and> trackIdOfTrak (buildTrakWithOffset track 1000 dataOffset)
       = Some (track_id track mod 4294967296)
   \<and> map track_id (outputTracks videoStsd audioStsd samplesOf infos [])
       = [1..<Suc (length (outputTracks videoStsd audioStsd samplesOf infos []))]
   \<and> (samplesOf (info_id v) = Some sv \<and> sv \<noteq> [] \<and> samplesOf (info_id a) = Some sa \<and> sa \<noteq> [] \<longrightarrow>
        map (\<lambda>t. (track_id t, track_type t))
            (outputTracks videoStsd audioStsd samplesOf [v, a] [])
          = [(1, info_type v), (2, info_type a)])"
proof -
  have frag: "occursAt (keptLength videoMoovData audioTrexBox) patched merged
        \<and> (scanFor audioTrakBox ''tkhd'' 8 \<noteq> None \<longrightarrow> trackIdOfTrak patched = Some 2)
        \<and> (\<forall>off sz. scanFor videoMoovData ''trak'' 8 = Some (off, sz)
               \<and> off + sz \<le> keptLength videoMoovData audioTrexBox \<and> audioTrakBox \<noteq> [] \<longrightarrow>
               findSubBox merged ''trak'' = findSubBox videoMoovData ''trak'')"
    if m: "createMergedMoov videoMoovData audioTrakBox audioTrexBox = Inr merged"
      and p: "updateTrackIdInTrak audioTrakBox 2 = Inr patched"
      and k4: "4 \<le> keptLength videoMoovData audioTrexBox"
  proof -
    let ?keep = "keptLength videoMoovData audioTrexBox"
    from createMergedMoov_kept [OF m p] obtain tail n where
      mm: "merged = putUint32 (take ?keep videoMoovData @ patched @ tail) 0 n"
      and kl: "?keep \<le> length videoMoovData"
      by blast
    have 1: "occursAt ?keep patched merged"
      using mm k4 kl by (rule merged_audio_trak)
    have 2: "trackIdOfTrak patched = Some 2" if "scanFor audioTrakBox ''tkhd'' 8 \<noteq> None"
      using trackIdOfTrak_patched [OF p that] by simp
    have 3: "findSubBox merged ''trak'' = findSubBox videoMoovData ''trak''"
      if scan: "scanFor videoMoovData ''trak'' 8 = Some (off, sz)"
        and before: "off + sz \<le> ?keep" and ne: "audioTrakBox \<noteq> []" for off sz
    proof -
      have "length patched = length audioTrakBox"
        using p by (rule updateTrackIdInTrak_length)
      with ne have "0 < length patched" by simp
      from merged_video_trak [OF mm kl this scan before]
      have "findSubBox merged ''trak'' = Some (sliceBytes videoMoovData off (off + sz))" .
      moreover have "findSubBox videoMoovData ''trak''
                       = Some (sliceBytes videoMoovData off (off + sz))"
        using scan by (simp add: findSubBox_def)
      ultimately show ?thesis by simp
    qed
    from 1 2 3 show ?thesis by blast
  qed
  have b1: "trackIdOfTrak (buildTrak track dataOffset) = Some (track_id track mod 4294967296)"
    unfolding buildTrak_def by (rule trackIdOfTrak_trakWith)
  have b2: "trackIdOfTrak (buildTrakWithOffset track 1000 dataOffset)
       = Some (track_id track mod 4294967296)"
    unfolding buildTrakWithOffset_def by (rule trackIdOfTrak_trakWith)
  have ids: "map track_id (outputTracks videoStsd audioStsd samplesOf infos [])
       = [1..<Suc (length (outputTracks videoStsd audioStsd samplesOf infos []))]"
    by (rule outputTracks_ids) simp
  have two: "samplesOf (info_id v) = Some sv \<and> sv \<noteq> [] \<and> samplesOf (info_id a) = Some sa \<and> sa \<noteq> [] \<longrightarrow>
        map (\<lambda>t. (track_id t, track_type t))
            (outputTracks videoStsd audioStsd samplesOf [v, a] [])
          = [(1, info_type v), (2, info_type a)]"
    by (simp add: Let_def)
  from frag b1 b2 ids two show ?thesis by blast
qed

theorem track_ids_by_path_witness:
  "createMergedMoov (sampleMoov 5) (sampleTrak 9) (Some (sampleTrex 9))
     = Inr (makeBox ''moov''
              (sampleTrak 5 @ sampleTrak 2 @ makeBox ''mvex'' (sampleTrex 5 @ sampleTrex 2)))
   \<and> updateTrackIdInTrak (sampleTrak 9) 2 = Inr (sampleTrak 2)
   \<and> keptLength (sampleMoov 5) (Some (sampleTrex 9)) = 44
   \<and> scanFor (sampleTrak 9) ''tkhd'' 8 = Some (8, 28)
   \<and> scanFor (sampleMoov 5) ''trak'' 8 = Some (8, 36)
   \<and> occursAt 44 (sampleTrak 2)
        (makeBox ''moov''
              (sampleTrak 5 @ sampleTrak 2 @ makeBox ''mvex'' (sampleTrex 5 @ sampleTrex 2)))
   \<and> trackIdOfTrak (sampleTrak 2) = Some 2
   \<and> findSubBox
        (makeBox ''moov''
              (sampleTrak 5 @ sampleTrak 2 @ makeBox ''mvex'' (sampleTrex 5 @ sampleTrex 2)))
        ''trak'' = Some (sampleTrak 5)
   \<and> [sampleOfDuration 4] \<noteq> [] \<and> [sampleOfDuration 6] \<noteq> []
   \<and> map (\<lambda>t. (track_id t, track_type t))
        (outputTracks None None
           [info_id sampleVideoInfo \<mapsto> [sampleOfDuration 4],
            info_id sampleAudioInfo \<mapsto> [sampleOfDuration 6]]
           [sampleVideoInfo, sampleAudioInfo] [])
       = [(1, ''video''), (2, ''audio'')]"
proof -
  let ?merged = "makeBox ''moov''
              (sampleTrak 5 @ sampleTrak 2 @ makeBox ''mvex'' (sampleTrex 5 @ sampleTrex 2))"
  let ?m = "[info_id sampleVideoInfo \<mapsto> [sampleOfDuration 4],
             info_id sampleAudioInfo \<mapsto> [sampleOfDuration 6]]"
  have m: "createMergedMoov (sampleMoov 5) (sampleTrak 9) (Some (sampleTrex 9)) = Inr ?merged"
    by code_simp
  have p: "updateTrackIdInTrak (sampleTrak 9) 2 = Inr (sampleTrak 2)" by code_simp
  have k: "keptLength (sampleMoov 5) (Some (sampleTrex 9)) = 44" by code_simp
  have s1: "scanFor (sampleTrak 9) ''tkhd'' 8 = Some (8, 28)" by code_simp
  have s2: "scanFor (sampleMoov 5) ''trak'' 8 = Some (8, 36)" by code_simp
  have ne: "sampleTrak 9 \<noteq> []" by code_simp
  have fv: "findSubBox (sampleMoov 5) ''trak'' = Some (sampleTrak 5)" by code_simp
  have sv: "?m (info_id sampleVideoInfo) = Some [sampleOfDuration 4]"
    by (simp add: sampleVideoInfo_def sampleAudioInfo_def)
  have sa: "?m (info_id sampleAudioInfo) = Some [sampleOfDuration 6]"
    by (simp add: sampleVideoInfo_def sampleAudioInfo_def)
  have ty: "info_type sampleVideoInfo = ''video''" "info_type sampleAudioInfo = ''audio''"
    by (simp_all add: sampleVideoInfo_def sampleAudioInfo_def)
  note t = track_ids_by_path [where videoMoovData = "sampleMoov 5" and audioTrakBox = "sampleTrak 9"
      and audioTrexBox = "Some (sampleTrex 9)" and merged = ?merged and patched = "sampleTrak 2"
      and samplesOf = ?m and v = sampleVideoInfo and a = sampleAudioInfo
      and sv = "[sampleOfDuration 4]" and sa = "[sampleOfDuration 6]"
      and videoStsd = None and audioStsd = None]
  from t m p k have f: "occursAt 44 (sampleTrak 2) ?merged
        \<and> (scanFor (sampleTrak 9) ''tkhd'' 8 \<noteq> None \<longrightarrow> trackIdOfTrak (sampleTrak 2) = Some 2)
        \<and> (\<forall>off sz. scanFor (sampleMoov 5) ''trak'' 8 = Some (off, sz)
               \<and> off + sz \<le> 44 \<and> sampleTrak 9 \<noteq> [] \<longrightarrow>
               findSubBox ?merged ''trak'' = findSubBox (sampleMoov 5) ''trak'')"
    by simp
  then have f1: "occursAt 44 (sampleTrak 2) ?merged" by (rule conjunct1)
  from f s1 have f2: "trackIdOfTrak (sampleTrak 2) = Some 2" by simp
  from f s2 ne have f3: "findSubBox ?merged ''trak'' = Some (sampleTrak 5)"
    unfolding fv [symmetric] by simp
  from t sv sa have g: "map (\<lambda>t. (track_id t, track_type t))
        (outputTracks None None ?m [sampleVideoInfo, sampleAudioInfo] [])
       = [(1, ''video''), (2, ''audio'')]"
    unfolding ty by blast
  from m p k s1 s2 f1 f2 f3 g show ?thesis by simp
qed

theorem fragmented_keeps_video_track_id:
  "muxVideoAudio sampleEnv \<lparr>videoData = sampleVideoStream, audioData = sampleAudioStream\<rparr>
     = Some (Inr (makeBox ''ftyp'' (charCodes ''isom'')
                  @ makeBox ''moov''
                      (sampleTrak 5 @ sampleTrak 2
                        @ makeBox ''mvex'' (sampleTrex 5 @ sampleTrex 2))),
             \<lparr>videoData = sampleVideoStream, audioData = sampleAudioStream\<rparr>)
   \<and> fst (binaryMuxFragmentedMP4 \<lparr>videoData = sampleVideoStream, audioData = sampleAudioStream\<rparr>)
     = Inr (makeBox ''ftyp'' (charCodes ''isom'')
            @ makeBox ''moov''
                (sampleTrak 5 @ sampleTrak 2 @ makeBox ''mvex'' (sampleTrex 5 @ sampleTrex 2)))
   \<and> findSubBox
        (makeBox ''moov''
              (sampleTrak 5 @ sampleTrak 2 @ makeBox ''mvex'' (sampleTrex 5 @ sampleTrex 2)))
        ''trak'' = Some (sampleTrak 5)
   \<and> trackIdOfTrak (sampleTrak 5) = Some 5
   \<and> trackIdOfTrak (sampleTrak 5) \<noteq> Some 1"
proof -
  have a: "muxVideoAudio sampleEnv \<lparr>videoData = sampleVideoStream, audioData = sampleAudioStream\<rparr>
     = Some (Inr (makeBox ''ftyp'' (charCodes ''isom'')
                  @ makeBox ''moov''
                      (sampleTrak 5 @ sampleTrak 2
                        @ makeBox ''mvex'' (sampleTrex 5 @ sampleTrex 2))),
             \<lparr>videoData = sampleVideoStream, audioData = sampleAudioStream\<rparr>)"
    by code_simp
  have b: "fst (binaryMuxFragmentedMP4 \<lparr>videoData = sampleVideoStream, audioData = sampleAudioStream\<rparr>)
     = Inr (makeBox ''ftyp'' (charCodes ''isom'')
            @ makeBox ''moov''
                (sampleTrak 5 @ sampleTrak 2 @ makeBox ''mvex'' (sampleTrex 5 @ sampleTrex 2)))"
    by code_simp
  have c: "findSubBox
        (makeBox ''moov''
              (sampleTrak 5 @ sampleTrak 2 @ makeBox ''mvex'' (sampleTrex 5 @ sampleTrex 2)))
        ''trak'' = Some (sampleTrak 5)"
    by code_simp
  have d: "trackIdOfTrak (sampleTrak 5) = Some 5" by code_simp
  from a b c d show ?thesis by simp
qed

lemma registered_tracks:
  "fold (\<lambda>t m. m(info_id t \<mapsto> [])) info m i
     = (if i \<in> info_id ` set info then Some [] else m i)"
  by (induction info arbitrary: m) auto

lemma delivered_Cons:
  "delivered ((i, ss) # bs) k = (if i = k then length ss else 0) + delivered bs k"
  by (simp add: delivered_def)

lemma collectRaw_short:
  assumes "fileInfo st = Some info" and "t \<in> set info"
    and "\<forall>b \<in> set bs. trackSamples st (fst b) \<noteq> None"
    and "trackSamples st (info_id t) = Some cur"
    and "length cur + delivered bs (info_id t) < nb_samples t"
  shows "collectRaw e videoStsd audioStsd st
           (map (\<lambda>(trackId, samples). OnSamples trackId samples) bs) = Inl Timeout"
  using assms
proof (induction bs arbitrary: st cur)
  case Nil
  then show ?case by simp
next
  case (Cons b bs)
  obtain i ss where b: "b = (i, ss)" by (cases b)
  from Cons.prems(3) b obtain old where old: "trackSamples st i = Some old" by auto
  let ?st = "st\<lparr>trackSamples := (trackSamples st)(i \<mapsto> old @ ss)\<rparr>"
  let ?cur = "if i = info_id t then old @ ss else cur"
  have cur': "trackSamples ?st (info_id t) = Some ?cur"
    using Cons.prems(4) by simp
  have len: "length ?cur + delivered bs (info_id t) < nb_samples t"
    using Cons.prems(4,5) old by (auto simp: b delivered_Cons)
  then have "\<not> nb_samples t \<le> length ?cur" by simp
  with cur' Cons.prems(2) have "\<not> list_all (\<lambda>t. case trackSamples ?st (info_id t) of
                           None \<Rightarrow> False
                         | Some samples \<Rightarrow> nb_samples t \<le> length samples) info"
    unfolding list_all_iff by (intro notI) (drule bspec [where x = t], simp_all)
  then have nd: "\<not> allDone ?st"
    using Cons.prems(1) by (simp add: allDone_def)
  have "collectRaw e videoStsd audioStsd ?st
           (map (\<lambda>(trackId, samples). OnSamples trackId samples) bs) = Inl Timeout"
  proof (rule Cons.IH [OF _ Cons.prems(2) _ cur' len])
    show "fileInfo ?st = Some info" using Cons.prems(1) by simp
    show "\<forall>b \<in> set bs. trackSamples ?st (fst b) \<noteq> None"
      using Cons.prems(3) by simp
  qed
  with nd old show ?case by (simp add: b Let_def)
qed

lemma parse_batches:
  assumes "parse_info st = Some info" and "settled st = None \<or> settled st = Some (Resolved (Some info))"
    and "extractionDone st \<longrightarrow> settled st \<noteq> None"
  shows "parse_info (foldl parseStep st (map (\<lambda>(trackId, samples). OnSamples trackId samples) bs))
           = Some info
       \<and> parse_samples (foldl parseStep st (map (\<lambda>(trackId, samples). OnSamples trackId samples) bs))
           = parse_samples st @ concat (map snd bs)
       \<and> (settled (foldl parseStep st (map (\<lambda>(trackId, samples). OnSamples trackId samples) bs)) = None
          \<or> settled (foldl parseStep st (map (\<lambda>(trackId, samples). OnSamples trackId samples) bs))
             = Some (Resolved (Some info)))
       \<and> (extractionDone (foldl parseStep st (map (\<lambda>(trackId, samples). OnSamples trackId samples) bs))
            \<longrightarrow> settled (foldl parseStep st (map (\<lambda>(trackId, samples). OnSamples trackId samples) bs))
                  \<noteq> None)"
  using assms
proof (induction bs arbitrary: st)
  case Nil
  then show ?case by simp
next
  case (Cons b bs)
  obtain i ss where b: "b = (i, ss)" by (cases b)
  define st' where "st' = parseStep st (OnSamples i ss)"
  have 1: "parse_info st' = Some info"
    using Cons.prems(1) by (simp add: st'_def Let_def settle_def)
  have 2: "settled st' = None \<or> settled st' = Some (Resolved (Some info))"
    using Cons.prems(1,2) by (auto simp: st'_def Let_def settle_def)
  have 3: "extractionDone st' \<longrightarrow> settled st' \<noteq> None"
    using Cons.prems(3) by (auto simp: st'_def Let_def settle_def)
  have 4: "parse_samples st' = parse_samples st @ ss"
    by (simp add: st'_def Let_def settle_def)
  have step: "foldl parseStep st (map (\<lambda>(trackId, samples). OnSamples trackId samples) (b # bs))
                = foldl parseStep st' (map (\<lambda>(trackId, samples). OnSamples trackId samples) bs)"
    by (simp add: b st'_def del: parseStep.simps)
  have c: "parse_samples st' @ concat (map snd bs) = parse_samples st @ concat (map snd (b # bs))"
    by (simp add: 4 b)
  from Cons.IH [OF 1 2 3] show ?case
    unfolding step c .
qed

lemma parseFile_deliveries:
  assumes "info \<noteq> []"
  shows "parseFile (deliveries info batches)
           = Some (Inr \<lparr>result_info = Some info, result_samples = concat (map snd batches)\<rparr>)"
proof -
  obtain t rest where i: "info = t # rest" using assms by (cases info) auto
  define st0 where "st0 = parseStep parse_state0 (OnReady info)"
  define st where
    "st = foldl parseStep st0 (map (\<lambda>(trackId, samples). OnSamples trackId samples) batches)"
  have 0: "parse_info st0 = Some info" "settled st0 = None" "\<not> extractionDone st0"
          "parse_samples st0 = []"
    by (simp_all add: st0_def i parse_state0_def)
  have pre: "settled st0 = None \<or> settled st0 = Some (Resolved (Some info))"
       "extractionDone st0 \<longrightarrow> settled st0 \<noteq> None"
    using 0 by simp_all
  from parse_batches [OF 0(1) pre, of batches] have
    r: "parse_info st = Some info" "parse_samples st = concat (map snd batches)"
       "settled st = None \<or> settled st = Some (Resolved (Some info))"
       "extractionDone st \<longrightarrow> settled st \<noteq> None"
    unfolding st_def [symmetric] 0(4) by simp_all
  have s: "settled (parseTimer st) = Some (Resolved (Some info))"
    using r by (auto simp: parseTimer_def settle_def)
  have p: "parse_samples (parseTimer st) = concat (map snd batches)"
    using r by (simp add: parseTimer_def settle_def)
  have "foldl parseStep parse_state0 (deliveries info batches) = st"
    by (simp add: deliveries_def st_def st0_def del: parseStep.simps)
  then have "parseFile (deliveries info batches)
          = (case settled (parseTimer st) of
                  None \<Rightarrow> None
                | Some (Rejected err) \<Rightarrow> Some (Inl err)
                | Some ResolvedNoTracks \<Rightarrow> Some (Inr \<lparr>result_info = None, result_samples = []\<rparr>)
                | Some (Resolved info) \<Rightarrow>
                    Some (Inr \<lparr>result_info = info, result_samples = parse_samples (parseTimer st)\<rparr>))"
    by (simp add: parseFile_def Let_def)
  then show ?thesis by (simp add: s p)
qed

text \<open>
  C4.  Suppose the demuxer reports the tracks and then delivers batches of samples for
  them, and when its callbacks are over some track has fewer samples than it declares.
  Then the collection of \<^verbatim>\<open>defragmentWithRawStsd\<close> is settled by its timer with the
  rejection \<^verbatim>\<open>Timeout\<close>: no file is built from the samples gathered.  On the same
  callbacks \<^verbatim>\<open>parseFile\<close>, the collection of the library strategy, resolves with the
  tracks reported and all the samples gathered.
\<close>

theorem timeout_by_collector:
  assumes registered: "\<forall>b \<in> set batches. fst b \<in> info_id ` set info"
    and short: "\<exists>t \<in> set info. delivered batches (info_id t) < nb_samples t"
  shows "collectRaw e videoStsd audioStsd collector0 (deliveries info batches) = Inl Timeout
       \<and> parseFile (deliveries info batches)
           = Some (Inr \<lparr>result_info = Some info, result_samples = concat (map snd batches)\<rparr>)"
proof
  from short obtain t where t: "t \<in> set info"
    and less: "delivered batches (info_id t) < nb_samples t" by blast
  let ?st = "onReady collector0 info"
  have "collectRaw e videoStsd audioStsd ?st
           (map (\<lambda>(trackId, samples). OnSamples trackId samples) batches) = Inl Timeout"
  proof (rule collectRaw_short [OF _ t])
    show "fileInfo ?st = Some info" by (simp add: onReady_def)
    show "\<forall>b \<in> set batches. trackSamples ?st (fst b) \<noteq> None"
      using registered by (simp add: onReady_def registered_tracks)
    show "trackSamples ?st (info_id t) = Some []"
      using t by (simp add: onReady_def registered_tracks)
    show "length ([] :: sample list) + delivered batches (info_id t) < nb_samples t"
      using less by simp
  qed
  then show "collectRaw e videoStsd audioStsd collector0 (deliveries info batches) = Inl Timeout"
    by (simp add: deliveries_def)
next
  from short have "info \<noteq> []" by auto
  then show "parseFile (deliveries info batches)
           = Some (Inr \<lparr>result_info = Some info, result_samples = concat (map snd batches)\<rparr>)"
    by (rule parseFile_deliveries)
qed

theorem timeout_by_collector_witness:
  "list_all (\<lambda>b. fst b \<in> info_id ` set [tenSampleTrack]) eightSamples
   \<and> list_ex (\<lambda>t. delivered eightSamples (info_id t) < nb_samples t) [tenSampleTrack]
   \<and> collectRaw sampleEnv None None collector0 (deliveries [tenSampleTrack] eightSamples)
       = Inl Timeout
   \<and> parseFile (deliveries [tenSampleTrack] eightSamples)
       = Some (Inr \<lparr>result_info = Some [tenSampleTrack],
                    result_samples = replicate 8 (sampleOfDuration 1)\<rparr>)"
proof -
  have r: "\<forall>b \<in> set eightSamples. fst b \<in> info_id ` set [tenSampleTrack]"
    by (simp add: eightSamples_def tenSampleTrack_def sampleVideoInfo_def)
  have s: "\<exists>t \<in> set [tenSampleTrack]. delivered eightSamples (info_id t) < nb_samples t"
    by (simp add: eightSamples_def tenSampleTrack_def sampleVideoInfo_def delivered_def)
  have c: "concat (map snd eightSamples) = replicate 8 (sampleOfDuration 1)"
    by (simp add: eightSamples_def)
  from r have r': "list_all (\<lambda>b. fst b \<in> info_id ` set [tenSampleTrack]) eightSamples"
    unfolding list_all_iff .
  from s have s': "list_ex (\<lambda>t. delivered eightSamples (info_id t) < nb_samples t) [tenSampleTrack]"
    unfolding list_ex_iff .
  from timeout_by_collector [OF r s, of sampleEnv None None] r' s' show ?thesis
    unfolding c by blast
qed

theorem progressive_timeout_rejects:
  "collectRaw sampleEnv None None collector0
     [OnReady [tenSampleTrack], OnSamples 7 (replicate 8 (sampleOfDuration 1))] = Inl Timeout
   \<and> nb_samples tenSampleTrack = 10
   \<and> length (replicate 8 (sampleOfDuration 1)) = 8"
  by (simp add: collector0_def onReady_def allDone_def tenSampleTrack_def sampleVideoInfo_def
      Let_def)

end
